theory Spec2Isabelle
  imports Main "HOL-Library.AList"
begin

section \<open>Python values used by the four scripts\<close>

text \<open>
  Exceptions are values. \<open>KeyError\<close>, \<open>IndexError\<close> and \<open>ValueError\<close> are the ones the
  scripts' own subscripts and numpy calls can raise; \<open>ExternalError\<close> is any exception of
  an external library or service (transcript API, comment API, scikit-learn, file system).
\<close>

datatype error = KeyError | IndexError | ValueError | ExternalError string

text \<open>
  \<open>str.isspace\<close> on the code points below 256 (a \<open>char\<close> here is one code point of
  that range), and \<open>str.strip()\<close> with no argument.
\<close>

definition py_isspace :: "char \<Rightarrow> bool" where
  "py_isspace c \<longleftrightarrow>
     (of_char c :: nat) \<in> set [9, 10, 11, 12, 13, 28, 29, 30, 31, 32, 133, 160]"

definition strip :: "string \<Rightarrow> string" where
  "strip s = rev (dropWhile py_isspace (rev (dropWhile py_isspace s)))"

text \<open>\<open>sep.join(xs)\<close>.\<close>

fun join :: "string \<Rightarrow> string list \<Rightarrow> string" where
  "join sep [] = []"
| "join sep [x] = x"
| "join sep (x # y # ys) = x @ sep @ join sep (y # ys)"

text \<open>\<open>xs[i]\<close> on a list or array with a non-negative index, and \<open>d[k]\<close> on a dict.\<close>

definition getitem :: "'a list \<Rightarrow> nat \<Rightarrow> error + 'a" where
  "getitem xs i = (if i < length xs then Inr (xs ! i) else Inl IndexError)"

definition dict_getitem :: "('k \<times> 'v) list \<Rightarrow> 'k \<Rightarrow> error + 'v" where
  "dict_getitem d k = (case map_of d k of None \<Rightarrow> Inl KeyError | Some v \<Rightarrow> Inr v)"

text \<open>A list comprehension whose element expression can raise: the first exception wins.\<close>

fun map_err :: "('a \<Rightarrow> error + 'b) \<Rightarrow> 'a list \<Rightarrow> error + 'b list" where
  "map_err f [] = Inr []"
| "map_err f (x # xs) =
     (case f x of
        Inl e \<Rightarrow> Inl e
      | Inr y \<Rightarrow> (case map_err f xs of Inl e \<Rightarrow> Inl e | Inr ys \<Rightarrow> Inr (y # ys)))"

text \<open>
  \<open>numpy.argsort\<close>: the indices of the array in ascending order of their values (equal
  values are kept in index order here). \<open>numpy.argmax\<close>: the first index of the largest
  value, \<open>ValueError\<close> on an empty array. Weights are any linearly ordered type.
\<close>

definition argsort :: "('w::linorder) list \<Rightarrow> nat list" where
  "argsort ws = sort_key (\<lambda>i. ws ! i) [0..<length ws]"

definition argmax :: "('w::linorder) list \<Rightarrow> error + nat" where
  "argmax ws =
     (if ws = [] then Inl ValueError
      else Inr (hd (filter (\<lambda>i. ws ! i = Max (set ws)) [0..<length ws])))"

text \<open>The slice \<open>xs[-n:]\<close>: the last \<open>n\<close> elements, all of them when there are fewer.\<close>

definition slice_last :: "nat \<Rightarrow> 'a list \<Rightarrow> 'a list" where
  "slice_last n xs = drop (length xs - n) xs"

section \<open>The shared JSON store\<close>

text \<open>
  The store is author \<open>\<rightarrow>\<close> playlist \<open>\<rightarrow>\<close> video \<open>\<rightarrow>\<close> record. A Python dict is an
  association list in insertion order; \<open>json.load\<close> yields unique keys at each level
  (\<open>wf_store\<close>). A video record has three optional fields. The scripts loop over
  these dicts while the loop bodies change records in place; no key is added or removed,
  so the sequence a loop visits is that of the store when the loop starts.
\<close>

record comment_entry =
  Timestamp :: string
  Comment :: string

record VideoRecord =
  captions :: "string option"
  comments :: "comment_entry list option"
  topic :: "string option"

type_synonym 'v dict = "(string \<times> 'v) list"
type_synonym Store = "VideoRecord dict dict dict"
type_synonym video_key = "string \<times> string \<times> string"

definition wf_store :: "Store \<Rightarrow> bool" where
  "wf_store d \<longleftrightarrow>
     distinct (map fst d) \<and>
     (\<forall>(author, playlists) \<in> set d.
        distinct (map fst playlists) \<and>
        (\<forall>(playlist_id, videos) \<in> set playlists. distinct (map fst videos)))"

text \<open>All videos of the store with their keys, in the order the nested loops visit them.\<close>

fun playlist_videos :: "string \<Rightarrow> string \<Rightarrow> VideoRecord dict \<Rightarrow> (video_key \<times> VideoRecord) list" where
  "playlist_videos author playlist_id [] = []"
| "playlist_videos author playlist_id ((video_id, video_data) # videos) =
     ((author, playlist_id, video_id), video_data) # playlist_videos author playlist_id videos"

fun author_videos :: "string \<Rightarrow> VideoRecord dict dict \<Rightarrow> (video_key \<times> VideoRecord) list" where
  "author_videos author [] = []"
| "author_videos author ((playlist_id, videos) # playlists) =
     playlist_videos author playlist_id videos @ author_videos author playlists"

fun all_videos :: "Store \<Rightarrow> (video_key \<times> VideoRecord) list" where
  "all_videos [] = []"
| "all_videos ((author, playlists) # d) = author_videos author playlists @ all_videos d"

text \<open>The store with \<open>g key\<close> applied to each record.\<close>

definition map_store :: "(video_key \<Rightarrow> VideoRecord \<Rightarrow> VideoRecord) \<Rightarrow> Store \<Rightarrow> Store" where
  "map_store g d =
     AList.map_ran (\<lambda>author.
       AList.map_ran (\<lambda>playlist_id.
         AList.map_ran (\<lambda>video_id. g (author, playlist_id, video_id)))) d"

text \<open>\<open>self.data[author][playlist_id][video_id]\<close>.\<close>

definition lookup3 :: "Store \<Rightarrow> video_key \<Rightarrow> error + VideoRecord" where
  "lookup3 d k =
     (case k of (author, playlist_id, video_id) \<Rightarrow>
        (case dict_getitem d author of
           Inl e \<Rightarrow> Inl e
         | Inr playlists \<Rightarrow>
             (case dict_getitem playlists playlist_id of
                Inl e \<Rightarrow> Inl e
              | Inr videos \<Rightarrow> dict_getitem videos video_id)))"

text \<open>
  An in-place change of the record object found under the three keys; the enclosing
  dicts keep their keys and their order.
\<close>

definition modify3 :: "video_key \<Rightarrow> (VideoRecord \<Rightarrow> VideoRecord) \<Rightarrow> Store \<Rightarrow> Store" where
  "modify3 k f d =
     (case k of (author, playlist_id, video_id) \<Rightarrow>
        AList.map_entry author (AList.map_entry playlist_id (AList.map_entry video_id f)) d)"

text \<open>\<open>self.data[author][playlist_id][video_id][field] = value\<close>.\<close>

definition setitem3 :: "video_key \<Rightarrow> (VideoRecord \<Rightarrow> VideoRecord) \<Rightarrow> Store \<Rightarrow> error + Store" where
  "setitem3 k f d = (case lookup3 d k of Inl e \<Rightarrow> Inl e | Inr _ \<Rightarrow> Inr (modify3 k f d))"

text \<open>
  What a script prints, the file on disk and the object's \<open>self.data\<close>. The file's
  content is a string; \<open>json.dump\<close> is a parameter \<open>dump\<close> of \<open>save_data\<close>.
\<close>

datatype message =
    NoCaptionsFound
  | Saved
  | SaveFailed error
  | CaptionFetched string
  | CaptionFailed string error
  | ExtractingComments string string string

record state =
  data :: Store
  disk :: string
  printed :: "message list"

text \<open>
  \<open>save_data\<close> (the same in the four classes up to the text printed): \<open>io = None\<close> when
  opening and writing the file works, \<open>io = Some e\<close> when \<open>open\<close> raises \<open>e\<close>, which is
  caught and printed.
\<close>

definition save_data :: "error option \<Rightarrow> (Store \<Rightarrow> string) \<Rightarrow> 'a state_scheme \<Rightarrow> 'a state_scheme" where
  "save_data io dump st =
     (case io of
        None \<Rightarrow> st\<lparr>disk := dump (data st), printed := printed st @ [Saved]\<rparr>
      | Some e \<Rightarrow> st\<lparr>printed := printed st @ [SaveFailed e]\<rparr>)"

section \<open>TopicModeling (TF-IDF and NMF)\<close>

text \<open>\<open>video_data.get("captions", "")\<close>.\<close>

definition get_captions :: "VideoRecord \<Rightarrow> string" where
  "get_captions video_data = (case captions video_data of None \<Rightarrow> [] | Some c \<Rightarrow> c)"

definition extract_captions :: "Store \<Rightarrow> string list \<times> video_key list" where
  "extract_captions d =
     fold (\<lambda>(author, playlists).
       fold (\<lambda>(playlist_id, videos).
         fold (\<lambda>(video_id, video_data) (captions_list, video_id_map).
                 let c = strip (get_captions video_data) in
                 if c \<noteq> [] then (captions_list @ [c],
                                  video_id_map @ [(author, playlist_id, video_id)])
                 else (captions_list, video_id_map))
           videos)
         playlists)
       d ([], [])"

text \<open>
  One topic's keyword string: \<open>" ".join([terms[i] for i in topic.argsort()[-10:]])\<close>.
\<close>

definition topic_keyword :: "string list \<Rightarrow> ('w::linorder) list \<Rightarrow> error + string" where
  "topic_keyword terms topic_row =
     (case map_err (getitem terms) (slice_last 10 (argsort topic_row)) of
        Inl e \<Rightarrow> Inl e
      | Inr ks \<Rightarrow> Inr (join '' '' ks))"

text \<open>
  \<open>topic_modeling\<close>. The vectorizer and the factorization are scikit-learn's: \<open>tfidf\<close>
  returns the matrix \<open>X\<close> and the feature names, \<open>nmf n seed X\<close> returns \<open>W\<close> and \<open>H\<close>
  (rows of weights), either may raise.
\<close>

definition topic_modeling ::
  "(string list \<Rightarrow> error + 'x \<times> string list) \<Rightarrow>
   (nat \<Rightarrow> nat \<Rightarrow> 'x \<Rightarrow> error + ('w::linorder) list list \<times> 'w list list) \<Rightarrow>
   nat \<Rightarrow> string list \<Rightarrow> error + string list \<times> 'w list list" where
  "topic_modeling tfidf nmf num_topics captions_list =
     (case tfidf captions_list of
        Inl e \<Rightarrow> Inl e
      | Inr (X, terms) \<Rightarrow>
          (case nmf num_topics 42 X of
             Inl e \<Rightarrow> Inl e
           | Inr (W, H) \<Rightarrow>
               (case map_err (topic_keyword terms) H of
                  Inl e \<Rightarrow> Inl e
                | Inr topic_keywords \<Rightarrow> Inr (topic_keywords, W))))"

text \<open>
  \<open>assign_topics\<close>: the loop over \<open>enumerate(video_id_map)\<close>. An exception leaves the
  loop with the store as mutated so far.
\<close>

fun assign_topics_loop ::
  "(nat \<times> video_key) list \<Rightarrow> ('w::linorder) list list \<Rightarrow> string list \<Rightarrow> Store \<Rightarrow>
   error option \<times> Store" where
  "assign_topics_loop [] W topic_keywords d = (None, d)"
| "assign_topics_loop ((i, k) # rest) W topic_keywords d =
     (case getitem W i of
        Inl e \<Rightarrow> (Some e, d)
      | Inr row \<Rightarrow>
     (case argmax row of
        Inl e \<Rightarrow> (Some e, d)
      | Inr best_topic \<Rightarrow>
     (case getitem topic_keywords best_topic of
        Inl e \<Rightarrow> (Some e, d)
      | Inr kw \<Rightarrow>
     (case setitem3 k (\<lambda>r. r\<lparr>topic := Some kw\<rparr>) d of
        Inl e \<Rightarrow> (Some e, d)
      | Inr d' \<Rightarrow> assign_topics_loop rest W topic_keywords d'))))"

definition assign_topics ::
  "video_key list \<Rightarrow> ('w::linorder) list list \<Rightarrow> string list \<Rightarrow> Store \<Rightarrow> error option \<times> Store" where
  "assign_topics video_id_map W topic_keywords d =
     assign_topics_loop (enumerate 0 video_id_map) W topic_keywords d"

text \<open>\<open>run\<close>: the result is the exception that left the script, if any, and the state.\<close>

definition run ::
  "(string list \<Rightarrow> error + 'x \<times> string list) \<Rightarrow>
   (nat \<Rightarrow> nat \<Rightarrow> 'x \<Rightarrow> error + ('w::linorder) list list \<times> 'w list list) \<Rightarrow>
   error option \<Rightarrow> (Store \<Rightarrow> string) \<Rightarrow> nat \<Rightarrow> state \<Rightarrow> error option \<times> state" where
  "run tfidf nmf io dump num_topics st =
     (case extract_captions (data st) of (captions_list, video_id_map) \<Rightarrow>
        if captions_list = [] then (None, st\<lparr>printed := printed st @ [NoCaptionsFound]\<rparr>)
        else
          (case topic_modeling tfidf nmf num_topics captions_list of
             Inl e \<Rightarrow> (Some e, st)
           | Inr (topic_keywords, W) \<Rightarrow>
               (case assign_topics video_id_map W topic_keywords (data st) of
                  (Some e, d) \<Rightarrow> (Some e, st\<lparr>data := d\<rparr>)
                | (None, d) \<Rightarrow> (None, save_data io dump (st\<lparr>data := d\<rparr>)))))"

section \<open>TopicModelingBERT (sentence embeddings and k-means)\<close>

text \<open>
  \<open>extract_captions\<close> of the second modeler: one entry per sentence; \<open>sent_tokenize\<close>
  is NLTK's.
\<close>

definition extract_captions_bert :: "(string \<Rightarrow> string list) \<Rightarrow> Store \<Rightarrow> string list \<times> video_key list" where
  "extract_captions_bert sent_tokenize d =
     fold (\<lambda>(author, playlists).
       fold (\<lambda>(playlist_id, videos).
         fold (\<lambda>(video_id, video_data) (captions_list, video_id_map).
                 let c = strip (get_captions video_data) in
                 if c \<noteq> [] then
                   (let sentences = sent_tokenize c in
                    (captions_list @ sentences,
                     fold (\<lambda>_ m. m @ [(author, playlist_id, video_id)]) sentences video_id_map))
                 else (captions_list, video_id_map))
           videos)
         playlists)
       d ([], [])"

text \<open>
  \<open>topic_modeling\<close>: \<open>get_bert_embeddings\<close> (tokenizer and model) and \<open>kmeans n seed\<close>
  are external and may raise; the labels are the cluster numbers, one per sentence.
\<close>

definition topic_modeling_bert ::
  "(string list \<Rightarrow> error + 'e) \<Rightarrow> (nat \<Rightarrow> nat \<Rightarrow> 'e \<Rightarrow> error + nat list) \<Rightarrow>
   nat \<Rightarrow> string list \<Rightarrow> error + nat list \<times> 'e" where
  "topic_modeling_bert get_bert_embeddings kmeans num_topics captions_list =
     (case get_bert_embeddings captions_list of
        Inl e \<Rightarrow> Inl e
      | Inr embeddings \<Rightarrow>
          (case kmeans num_topics 42 embeddings of
             Inl e \<Rightarrow> Inl e
           | Inr labels \<Rightarrow> Inr (labels, embeddings)))"

text \<open>
  \<open>get_top_keywords_for_topics\<close>: \<open>count_vectorizer\<close> returns the term-count matrix
  (one row per sentence, one column per feature name) and the feature names. The result
  is the dict from topic number to keyword list. A column index is read with \<open>!\<close>: the
  matrix is rectangular, with as many columns as feature names.
\<close>

definition get_top_keywords_for_topics ::
  "(string list \<Rightarrow> error + nat list list \<times> string list) \<Rightarrow> nat \<Rightarrow> string list \<Rightarrow> nat list \<Rightarrow>
   nat \<Rightarrow> error + (nat \<times> string list) list" where
  "get_top_keywords_for_topics count_vectorizer num_topics caps labels num_keywords =
     (case count_vectorizer caps of
        Inl e \<Rightarrow> Inl e
      | Inr (X, feature_names) \<Rightarrow>
          map_err (\<lambda>topic_num.
            let topic_indices = filter (\<lambda>i. labels ! i = topic_num) [0..<length labels] in
            (case map_err (getitem caps) topic_indices of
               Inl e \<Rightarrow> Inl e
             | Inr topic_sentences \<Rightarrow>
            (case map_err (getitem X) topic_indices of
               Inl e \<Rightarrow> Inl e
             | Inr topic_matrix \<Rightarrow>
                 let word_freq = map (\<lambda>j. sum_list (map (\<lambda>row. row ! j) topic_matrix))
                                   [0..<length feature_names];
                     sorted_indices = rev (argsort word_freq)
                 in Inr (topic_num, take num_keywords (map ((!) feature_names) sorted_indices)))))
          [0..<num_topics])"

fun assign_topics_bert_loop ::
  "(nat \<times> video_key) list \<Rightarrow> nat list \<Rightarrow> (nat \<times> string list) list \<Rightarrow> Store \<Rightarrow>
   error option \<times> Store" where
  "assign_topics_bert_loop [] kmeans_labels topic_keywords d = (None, d)"
| "assign_topics_bert_loop ((i, k) # rest) kmeans_labels topic_keywords d =
     (case getitem kmeans_labels i of
        Inl e \<Rightarrow> (Some e, d)
      | Inr best_topic \<Rightarrow>
     (case dict_getitem topic_keywords best_topic of
        Inl e \<Rightarrow> (Some e, d)
      | Inr kws \<Rightarrow>
     (case setitem3 k (\<lambda>r. r\<lparr>topic := Some (join '' '' kws)\<rparr>) d of
        Inl e \<Rightarrow> (Some e, d)
      | Inr d' \<Rightarrow> assign_topics_bert_loop rest kmeans_labels topic_keywords d')))"

definition assign_topics_bert ::
  "video_key list \<Rightarrow> nat list \<Rightarrow> (nat \<times> string list) list \<Rightarrow> Store \<Rightarrow> error option \<times> Store" where
  "assign_topics_bert video_id_map kmeans_labels topic_keywords d =
     assign_topics_bert_loop (enumerate 0 video_id_map) kmeans_labels topic_keywords d"

definition run_bert ::
  "(string \<Rightarrow> string list) \<Rightarrow> (string list \<Rightarrow> error + 'e) \<Rightarrow> (nat \<Rightarrow> nat \<Rightarrow> 'e \<Rightarrow> error + nat list) \<Rightarrow>
   (string list \<Rightarrow> error + nat list list \<times> string list) \<Rightarrow>
   error option \<Rightarrow> (Store \<Rightarrow> string) \<Rightarrow> nat \<Rightarrow> state \<Rightarrow> error option \<times> state" where
  "run_bert sent_tokenize get_bert_embeddings kmeans count_vectorizer io dump num_topics st =
     (case extract_captions_bert sent_tokenize (data st) of (captions_list, video_id_map) \<Rightarrow>
        if captions_list = [] then (None, st\<lparr>printed := printed st @ [NoCaptionsFound]\<rparr>)
        else
          (case topic_modeling_bert get_bert_embeddings kmeans num_topics captions_list of
             Inl e \<Rightarrow> (Some e, st)
           | Inr (kmeans_labels, embeddings) \<Rightarrow>
          (case get_top_keywords_for_topics count_vectorizer num_topics captions_list
                  kmeans_labels 5 of
             Inl e \<Rightarrow> (Some e, st)
           | Inr topic_keywords \<Rightarrow>
          (case assign_topics_bert video_id_map kmeans_labels topic_keywords (data st) of
             (Some e, d) \<Rightarrow> (Some e, st\<lparr>data := d\<rparr>)
           | (None, d) \<Rightarrow> (None, save_data io dump (st\<lparr>data := d\<rparr>))))))"

section \<open>YouTubeCaptionUpdater\<close>

text \<open>
  A transcript is a list of timed segments, of which only the text is read.
  \<open>get_transcript\<close> is the transcript service: it returns the segments or raises.
  Every exception inside the \<open>try\<close> is caught and printed.
\<close>

record segment =
  seg_text :: string

definition caption_step ::
  "(string \<Rightarrow> error + segment list) \<Rightarrow> string \<Rightarrow> string \<Rightarrow> string \<Rightarrow> state \<Rightarrow> state" where
  "caption_step get_transcript channel playlist_id video_id st =
     (case get_transcript video_id of
        Inl e \<Rightarrow> st\<lparr>printed := printed st @ [CaptionFailed video_id e]\<rparr>
      | Inr transcript \<Rightarrow>
          (let script = join [CHR 0x0A] (map seg_text transcript) in
           case setitem3 (channel, playlist_id, video_id) (\<lambda>r. r\<lparr>captions := Some script\<rparr>)
                  (data st) of
             Inl e \<Rightarrow> st\<lparr>printed := printed st @ [CaptionFailed video_id e]\<rparr>
           | Inr d \<Rightarrow> st\<lparr>data := d, printed := printed st @ [CaptionFetched video_id]\<rparr>))"

definition update_captions :: "(string \<Rightarrow> error + segment list) \<Rightarrow> state \<Rightarrow> state" where
  "update_captions get_transcript st =
     fold (\<lambda>(channel, playlists).
       fold (\<lambda>(playlist_id, videos).
         fold (\<lambda>video_id. caption_step get_transcript channel playlist_id video_id)
           (map fst videos))
         playlists)
       (data st) st"

definition run_captions ::
  "(string \<Rightarrow> error + segment list) \<Rightarrow> error option \<Rightarrow> (Store \<Rightarrow> string) \<Rightarrow> state \<Rightarrow> state" where
  "run_captions get_transcript io dump st = save_data io dump (update_captions get_transcript st)"

section \<open>YouTubeCommentExtractor\<close>

text \<open>
  The request sent to the comment service, the part of its response that is read, and
  the entries collected. \<open>execute\<close> is the service: it answers a request or raises.
  The state of this script also holds the requests sent so far.
\<close>

record request =
  part :: string
  videoId :: string
  pageToken :: "string option"
  textFormat :: string
  maxResults :: nat

record comment_snippet =
  publishedAt :: string
  textDisplay :: string

record response =
  items :: "comment_snippet list"
  nextPageToken :: "string option"

record fetched_comment = comment_entry +
  VideoID :: string

record cstate = state +
  sent :: "request list"

text \<open>The request built by \<open>commentThreads().list(...)\<close> for a video and a page token.\<close>

definition comment_request :: "string \<Rightarrow> string option \<Rightarrow> request" where
  "comment_request video_id next_page_token =
     \<lparr>part = ''snippet'', videoId = video_id, pageToken = next_page_token,
      textFormat = ''plainText'', maxResults = 100\<rparr>"

text \<open>The entries appended to \<open>all_comments\<close> for one response.\<close>

definition page_comments :: "string \<Rightarrow> response \<Rightarrow> fetched_comment list" where
  "page_comments video_id comment_response =
     map (\<lambda>top_comment.
            \<lparr>Timestamp = publishedAt top_comment, Comment = textDisplay top_comment,
             VideoID = video_id\<rparr>)
       (items comment_response)"

text \<open>
  The \<open>while True\<close> loop of \<open>get_comments_for_video\<close>: \<open>None\<close> when it never ends.
  An absent token and an empty token both end it (\<open>if not next_page_token\<close>).
\<close>

partial_function (option) get_comments_loop ::
  "(request \<Rightarrow> error + response) \<Rightarrow> string \<Rightarrow> string option \<Rightarrow> fetched_comment list \<Rightarrow>
   request list \<Rightarrow> ((error + fetched_comment list) \<times> request list) option" where
  "get_comments_loop execute video_id next_page_token all_comments reqs =
     (case execute (comment_request video_id next_page_token) of
        Inl e \<Rightarrow> Some (Inl e, reqs @ [comment_request video_id next_page_token])
      | Inr comment_response \<Rightarrow>
          (case nextPageToken comment_response of
             None \<Rightarrow>
               Some (Inr (all_comments @ page_comments video_id comment_response),
                     reqs @ [comment_request video_id next_page_token])
           | Some tok \<Rightarrow>
               if tok = []
               then Some (Inr (all_comments @ page_comments video_id comment_response),
                          reqs @ [comment_request video_id next_page_token])
               else get_comments_loop execute video_id (Some tok)
                      (all_comments @ page_comments video_id comment_response)
                      (reqs @ [comment_request video_id next_page_token])))"

declare get_comments_loop.simps [code]

definition get_comments_for_video ::
  "(request \<Rightarrow> error + response) \<Rightarrow> string \<Rightarrow> request list \<Rightarrow>
   ((error + fetched_comment list) \<times> request list) option" where
  "get_comments_for_video execute video_id reqs = get_comments_loop execute video_id None [] reqs"

text \<open>
  A \<open>for\<close> loop whose body may raise or never return: the first exception leaves the
  loop, with the state as it is then.
\<close>

fun for_each :: "('a \<Rightarrow> 's \<Rightarrow> (error option \<times> 's) option) \<Rightarrow> 'a list \<Rightarrow> 's \<Rightarrow> (error option \<times> 's) option" where
  "for_each body [] s = Some (None, s)"
| "for_each body (x # xs) s =
     (case body x s of
        None \<Rightarrow> None
      | Some (Some e, s') \<Rightarrow> Some (Some e, s')
      | Some (None, s') \<Rightarrow> for_each body xs s')"

text \<open>
  The body of the innermost loop of \<open>extract_comments\<close>. \<open>video_data\<close> is the record
  object of the store, so the assignment to its \<open>comments\<close> changes the store in place.
\<close>

definition comment_step ::
  "(request \<Rightarrow> error + response) \<Rightarrow> string \<Rightarrow> string \<Rightarrow> string \<Rightarrow> cstate \<Rightarrow>
   (error option \<times> cstate) option" where
  "comment_step execute author playlist_id video_id st =
     (let st1 = st\<lparr>printed := printed st @ [ExtractingComments video_id author playlist_id]\<rparr>
      in case get_comments_for_video execute video_id (sent st1) of
           None \<Rightarrow> None
         | Some (Inl e, reqs) \<Rightarrow> Some (Some e, st1\<lparr>sent := reqs\<rparr>)
         | Some (Inr video_comments, reqs) \<Rightarrow>
             Some (None, st1\<lparr>sent := reqs,
               data := modify3 (author, playlist_id, video_id)
                 (\<lambda>r. r\<lparr>comments := Some (map (\<lambda>c. \<lparr>Timestamp = Timestamp c, Comment = Comment c\<rparr>)
                                             video_comments)\<rparr>)
                 (data st1)\<rparr>))"

definition extract_comments ::
  "(request \<Rightarrow> error + response) \<Rightarrow> cstate \<Rightarrow> (error option \<times> cstate) option" where
  "extract_comments execute st =
     for_each (\<lambda>(author, playlists).
       for_each (\<lambda>(playlist_id, playlist_data).
         for_each (\<lambda>(video_id, video_data). comment_step execute author playlist_id video_id)
           playlist_data)
         playlists)
       (data st) st"

definition run_comments ::
  "(request \<Rightarrow> error + response) \<Rightarrow> error option \<Rightarrow> (Store \<Rightarrow> string) \<Rightarrow> cstate \<Rightarrow>
   (error option \<times> cstate) option" where
  "run_comments execute io dump st =
     (case extract_comments execute st of
        None \<Rightarrow> None
      | Some (Some e, st') \<Rightarrow> Some (Some e, st')
      | Some (None, st') \<Rightarrow> Some (None, save_data io dump st'))"

section \<open>Readings of the specification used in the comparisons\<close>



text \<open>
  A video takes part in topic modelling when its stripped captions are not empty.
\<close>

definition nonblank :: "video_key \<times> VideoRecord \<Rightarrow> bool" where
  "nonblank kr \<longleftrightarrow> strip (get_captions (snd kr)) \<noteq> []"

text \<open>
  The effect of a list of assignments \<open>(key, value)\<close> on the record under \<open>k\<close>: the
  last value assigned to \<open>k\<close> is written with \<open>upd\<close>, a record never assigned is kept.
\<close>

definition last_assigned ::
  "(video_key \<times> 'v) list \<Rightarrow> ('v \<Rightarrow> VideoRecord \<Rightarrow> VideoRecord) \<Rightarrow> video_key \<Rightarrow> VideoRecord \<Rightarrow> VideoRecord" where
  "last_assigned as upd k r = (case map_of (rev as) k of None \<Rightarrow> r | Some t \<Rightarrow> upd t r)"


text \<open>
  \<open>is_page_chain execute v tok pages\<close>: starting with token \<open>tok\<close>, the service answers
  with the pages \<open>pages\<close>, each but the last carrying the non-empty token of the next
  request, the last carrying none. \<open>fails_after execute v tok pages e\<close>: it answers with
  \<open>pages\<close>, each carrying a non-empty token, and raises \<open>e\<close> at the next request.
\<close>

fun is_page_chain :: "(request \<Rightarrow> error + response) \<Rightarrow> string \<Rightarrow> string option \<Rightarrow> response list \<Rightarrow> bool" where
  "is_page_chain execute v tok [] = False"
| "is_page_chain execute v tok (page # rest) =
     (execute (comment_request v tok) = Inr page \<and>
      (case nextPageToken page of
         None \<Rightarrow> rest = []
       | Some t \<Rightarrow> if t = [] then rest = [] else is_page_chain execute v (Some t) rest))"

fun fails_after :: "(request \<Rightarrow> error + response) \<Rightarrow> string \<Rightarrow> string option \<Rightarrow> response list \<Rightarrow> error \<Rightarrow> bool" where
  "fails_after execute v tok [] e = (execute (comment_request v tok) = Inl e)"
| "fails_after execute v tok (page # rest) e =
     (execute (comment_request v tok) = Inr page \<and>
      (case nextPageToken page of
         None \<Rightarrow> False
       | Some t \<Rightarrow> t \<noteq> [] \<and> fails_after execute v (Some t) rest e))"

text \<open>The requests sent for such a sequence of pages, starting with token \<open>tok\<close>.\<close>

fun page_requests :: "string \<Rightarrow> string option \<Rightarrow> response list \<Rightarrow> request list" where
  "page_requests v tok [] = []"
| "page_requests v tok (page # rest) =
     comment_request v tok # page_requests v (nextPageToken page) rest"


text \<open>
  A record whose \<open>captions\<close> field is absent, empty or only whitespace, and what the
  topic modelers may change between a video before the run and the video at the same
  position after it: the key, the captions and the comments are kept, and a record with
  blank captions is kept whole.
\<close>

definition blank_captions :: "VideoRecord \<Rightarrow> bool" where
  "blank_captions r \<longleftrightarrow> (case captions r of None \<Rightarrow> True | Some s \<Rightarrow> \<forall>c \<in> set s. py_isspace c)"

definition topic_only :: "video_key \<times> VideoRecord \<Rightarrow> video_key \<times> VideoRecord \<Rightarrow> bool" where
  "topic_only kr kr' \<longleftrightarrow>
     fst kr' = fst kr \<and> captions (snd kr') = captions (snd kr) \<and>
     comments (snd kr') = comments (snd kr) \<and>
     (blank_captions (snd kr) \<longrightarrow> snd kr' = snd kr)"

text \<open>
  What the caption updater is to do with one video: the record with the joined
  transcript as captions when the fetch succeeds, the record as it was when the fetch
  raises; and the line it prints for the video.
\<close>

definition fetched_captions ::
  "(string \<Rightarrow> error + segment list) \<Rightarrow> video_key \<Rightarrow> VideoRecord \<Rightarrow> VideoRecord" where
  "fetched_captions get_transcript k r =
     (case get_transcript (snd (snd k)) of
        Inl e \<Rightarrow> r
      | Inr transcript \<Rightarrow> r\<lparr>captions := Some (join [CHR 0x0A] (map seg_text transcript))\<rparr>)"

definition caption_message :: "(string \<Rightarrow> error + segment list) \<Rightarrow> video_key \<Rightarrow> message" where
  "caption_message get_transcript k =
     (case get_transcript (snd (snd k)) of
        Inl e \<Rightarrow> CaptionFailed (snd (snd k)) e
      | Inr transcript \<Rightarrow> CaptionFetched (snd (snd k)))"

text \<open>The captions assigned by the successful fetches, in store order.\<close>

definition caption_assignments ::
  "(string \<Rightarrow> error + segment list) \<Rightarrow> (video_key \<times> VideoRecord) list \<Rightarrow> (video_key \<times> string) list" where
  "caption_assignments get_transcript ks =
     map (\<lambda>k. (k, join [CHR 0x0A] (map seg_text (projr (get_transcript (snd (snd k)))))))
       (filter (\<lambda>k. \<not> isl (get_transcript (snd (snd k)))) (map fst ks))"

text \<open>
  The requests sent when the service answers with \<open>pages\<close> and raises at the next
  request; the entries stored under \<open>comments\<close> for a sequence of pages; and the line
  printed before a video's comments are fetched.
\<close>

fun fail_requests :: "string \<Rightarrow> string option \<Rightarrow> response list \<Rightarrow> request list" where
  "fail_requests v tok [] = [comment_request v tok]"
| "fail_requests v tok (page # rest) =
     comment_request v tok # fail_requests v (nextPageToken page) rest"

definition stored_comments :: "response list \<Rightarrow> comment_entry list" where
  "stored_comments pages =
     concat (map (\<lambda>page. map (\<lambda>c. \<lparr>Timestamp = publishedAt c, Comment = textDisplay c\<rparr>)
                            (items page)) pages)"

definition comment_message :: "video_key \<Rightarrow> message" where
  "comment_message k = ExtractingComments (snd (snd k)) (fst k) (fst (snd k))"

section \<open>Example inputs\<close>

text \<open>
  A small store, and stand-ins for the external services, used to run the definitions
  on concrete inputs: three videos, the second with whitespace-only captions and an old
  topic; a vectorizer with six terms; a factorization with two topics; a sentence
  splitter; three cluster labels; a term-count matrix; a serializer.
\<close>

definition example_store :: Store where
  "example_store =
     [(''ChannelA'',
        [(''PL1'',
           [(''vid1'', \<lparr>captions = Some ''cats purr. dogs bark.'',
                        comments = Some [\<lparr>Timestamp = ''t0'', Comment = ''hi''\<rparr>], topic = None\<rparr>),
            (''vid2'', \<lparr>captions = Some ''  '', comments = None, topic = Some ''old''\<rparr>)]),
         (''PL2'', [])]),
      (''ChannelB'',
        [(''PL3'', [(''vid3'', \<lparr>captions = Some ''fish swim'', comments = None, topic = None\<rparr>)])])]"

definition example_state :: state where
  "example_state = \<lparr>data = example_store, disk = ''on disk'', printed = []\<rparr>"

definition example_tfidf :: "string list \<Rightarrow> error + unit \<times> string list" where
  "example_tfidf cs = Inr ((), [''bark'', ''cats'', ''dogs'', ''fish'', ''purr'', ''swim''])"

definition example_nmf :: "nat \<Rightarrow> nat \<Rightarrow> unit \<Rightarrow> error + nat list list \<times> nat list list" where
  "example_nmf n seed X = Inr ([[2, 1], [1, 3]], [[1, 5, 2, 0, 4, 3], [3, 0, 1, 5, 2, 4]])"

definition example_sent_tokenize :: "string \<Rightarrow> string list" where
  "example_sent_tokenize c =
     (if c = ''cats purr. dogs bark.'' then [''cats purr.'', ''dogs bark.''] else [c])"

definition example_embeddings :: "string list \<Rightarrow> error + unit" where
  "example_embeddings cs = Inr ()"

definition example_kmeans :: "nat \<Rightarrow> nat \<Rightarrow> unit \<Rightarrow> error + nat list" where
  "example_kmeans n seed E = Inr [0, 1, 0]"

definition example_count_vectorizer :: "string list \<Rightarrow> error + nat list list \<times> string list" where
  "example_count_vectorizer cs =
     Inr ([[1, 4, 0, 0, 3, 0], [5, 1, 6, 2, 3, 4], [0, 0, 2, 6, 0, 5]],
          [''bark'', ''cats'', ''dogs'', ''fish'', ''purr'', ''swim''])"

definition example_dump :: "Store \<Rightarrow> string" where
  "example_dump d =
     concat (map (\<lambda>(k, r). ''/'' @ snd (snd k) @ '':'' @
                    (case topic r of None \<Rightarrow> ''-'' | Some t \<Rightarrow> t) @ '':'' @
                    (case captions r of None \<Rightarrow> ''-'' | Some c \<Rightarrow> c))
               (all_videos d))"

text \<open>
  The one-video store of the specification's end-to-end example, with a vectorizer
  returning its five terms and a factorization with one topic.
\<close>

definition literal_record :: VideoRecord where
  "literal_record =
     \<lparr>captions = Some ''cats are great pets. dogs are loyal.'', comments = None, topic = None\<rparr>"

definition literal_tfidf :: "string list \<Rightarrow> error + unit \<times> string list" where
  "literal_tfidf cs = Inr ((), [''cats'', ''dogs'', ''great'', ''loyal'', ''pets''])"

definition literal_nmf :: "nat \<Rightarrow> nat \<Rightarrow> unit \<Rightarrow> error + nat list list \<times> nat list list" where
  "literal_nmf n seed X = Inr ([[1]], [[3, 1, 5, 2, 4]])"

text \<open>A transcript service that knows two of the three videos.\<close>

definition example_get_transcript :: "string \<Rightarrow> error + segment list" where
  "example_get_transcript video_id =
     (if video_id = ''vid1'' then Inr [\<lparr>seg_text = ''hello''\<rparr>, \<lparr>seg_text = ''world''\<rparr>]
      else if video_id = ''vid3'' then Inr []
      else Inl (ExternalError ''TranscriptsDisabled''))"

text \<open>
  A comment service with two pages for the first video and one page, with an empty
  token, for the others; the same service out of quota for the second video.
\<close>

definition example_pages :: "string \<Rightarrow> response list" where
  "example_pages video_id =
     (if video_id = ''vid1''
      then [\<lparr>items = [\<lparr>publishedAt = ''2025-01-01'', textDisplay = ''first''\<rparr>,
                       \<lparr>publishedAt = ''2025-01-02'', textDisplay = ''second''\<rparr>],
              nextPageToken = Some ''T2''\<rparr>,
            \<lparr>items = [\<lparr>publishedAt = ''2025-01-03'', textDisplay = ''third''\<rparr>],
              nextPageToken = None\<rparr>]
      else [\<lparr>items = [], nextPageToken = Some []\<rparr>])"

definition example_execute :: "request \<Rightarrow> error + response" where
  "example_execute rq =
     (if maxResults rq \<noteq> 100 then Inl (ExternalError ''unexpected page size'')
      else if videoId rq = ''vid1'' \<and> pageToken rq = None then Inr (example_pages ''vid1'' ! 0)
      else if videoId rq = ''vid1'' \<and> pageToken rq = Some ''T2'' then Inr (example_pages ''vid1'' ! 1)
      else if pageToken rq = None then Inr (example_pages ''other'' ! 0)
      else Inl (ExternalError ''unknown page token''))"

definition example_execute_quota :: "request \<Rightarrow> error + response" where
  "example_execute_quota rq =
     (if videoId rq = ''vid2'' then Inl (ExternalError ''quotaExceeded'')
      else example_execute rq)"

definition example_cstate :: cstate where
  "example_cstate = \<lparr>data = example_store, disk = ''on disk'', printed = [], sent = []\<rparr>"

section \<open>Lists, argsort and slices\<close>

lemma map_err_getitem:
  "\<forall>i \<in> set idx. i < length xs \<Longrightarrow> map_err (getitem xs) idx = Inr (map ((!) xs) idx)"
  by (induction idx) (simp_all add: getitem_def)


lemma set_argsort: "set (argsort ws) = {..<length ws}"
  by (auto simp: argsort_def)

lemma distinct_argsort: "distinct (argsort ws)"
  by (simp add: argsort_def)

lemma length_argsort: "length (argsort ws) = length ws"
  by (simp add: argsort_def)

lemma sorted_argsort: "sorted (map ((!) ws) (argsort ws))"
  unfolding argsort_def by (rule sorted_sort_key)

lemma slice_last_props:
  fixes ws :: "('w::linorder) list" and n :: nat
  defines "idx \<equiv> slice_last n (argsort ws)"
  shows "length idx = min n (length ws)"
    and "distinct idx"
    and "set idx \<subseteq> {..<length ws}"
    and "sorted (map ((!) ws) idx)"
    and "i \<in> set idx \<Longrightarrow> j < length ws \<Longrightarrow> j \<notin> set idx \<Longrightarrow> ws ! j \<le> ws ! i"
proof -
  let ?a = "argsort ws" and ?k = "length (argsort ws) - n"
  show "length idx = min n (length ws)"
    by (simp add: idx_def slice_last_def length_argsort)
  show "distinct idx"
    by (simp add: idx_def slice_last_def distinct_argsort)
  show "set idx \<subseteq> {..<length ws}"
    using set_drop_subset[of ?k ?a] by (simp add: idx_def slice_last_def set_argsort)
  have s: "sorted (map ((!) ws) (take ?k ?a @ drop ?k ?a))"
    using sorted_argsort[of ws] by simp
  then show "sorted (map ((!) ws) idx)"
    by (simp add: idx_def slice_last_def sorted_append del: append_take_drop_id)
  assume i: "i \<in> set idx" and j: "j < length ws" "j \<notin> set idx"
  from j have "j \<in> set (take ?k ?a @ drop ?k ?a)"
    by (simp add: set_argsort)
  with j(2) have "j \<in> set (take ?k ?a)"
    by (auto simp: idx_def slice_last_def simp del: append_take_drop_id)
  with s i show "ws ! j \<le> ws ! i"
    by (auto simp: idx_def slice_last_def sorted_append simp del: append_take_drop_id)
qed


section \<open>The store: keys, lookups and in-place changes\<close>

lemma map_entry_distinct:
  "distinct (map fst xs) \<Longrightarrow>
   AList.map_entry k f xs = AList.map_ran (\<lambda>k' v. if k' = k then f v else v) xs"
proof (induction xs)
  case Nil
  then show ?case by simp
next
  case (Cons x xs)
  obtain k' v where x: "x = (k', v)" by (cases x)
  show ?case
  proof (cases "k' = k")
    case True
    with Cons.prems x have "k \<notin> fst ` set xs" by auto
    then have "AList.map_ran (\<lambda>k' v. if k' = k then f v else v) xs = xs"
      by (induction xs) auto
    with True x show ?thesis by simp
  next
    case False
    with Cons x show ?thesis by simp
  qed
qed

lemma map_ran_cong_set:
  "(\<And>k v. (k, v) \<in> set xs \<Longrightarrow> f k v = g k v) \<Longrightarrow> AList.map_ran f xs = AList.map_ran g xs"
  by (induction xs) auto

lemma map_ran_ident: "AList.map_ran (\<lambda>k v. v) xs = xs"
  by (induction xs) auto

lemma map_ran_ident2: "AList.map_ran (\<lambda>k. AList.map_ran (\<lambda>k' v. v)) xs = xs"
  by (induction xs) (auto simp: map_ran_ident)

lemma wf_store_Cons:
  "wf_store ((a, pls) # d) \<longleftrightarrow>
     a \<notin> fst ` set d \<and> distinct (map fst pls) \<and>
     (\<forall>(p, vs) \<in> set pls. distinct (map fst vs)) \<and> wf_store d"
  by (auto simp: wf_store_def)

lemma wf_storeD:
  assumes "wf_store d"
  shows "distinct (map fst d)"
    and "(a, pls) \<in> set d \<Longrightarrow> distinct (map fst pls)"
    and "(a, pls) \<in> set d \<Longrightarrow> (p, vs) \<in> set pls \<Longrightarrow> distinct (map fst vs)"
  using assms unfolding wf_store_def by auto

lemma modify3_map_store:
  assumes "wf_store d"
  shows "modify3 k f d = map_store (\<lambda>k' r. if k' = k then f r else r) d"
proof -
  obtain a p v where k: "k = (a, p, v)" by (cases k)
  have "AList.map_entry a (AList.map_entry p (AList.map_entry v f)) d =
        AList.map_ran (\<lambda>a' pls. if a' = a then AList.map_entry p (AList.map_entry v f) pls else pls) d"
    using wf_storeD(1)[OF assms] by (rule map_entry_distinct)
  also have "\<dots> = map_store (\<lambda>k' r. if k' = k then f r else r) d"
    unfolding map_store_def
  proof (rule map_ran_cong_set)
    fix a' pls assume in_d: "(a', pls) \<in> set d"
    have pls: "AList.map_entry p (AList.map_entry v f) pls =
          AList.map_ran (\<lambda>p' vs. if p' = p then AList.map_entry v f vs else vs) pls"
      using wf_storeD(2)[OF assms in_d] by (rule map_entry_distinct)
    have vs: "AList.map_entry v f vs = AList.map_ran (\<lambda>v' r. if v' = v then f r else r) vs"
      if "(p', vs) \<in> set pls" for p' vs
      using wf_storeD(3)[OF assms in_d that] by (rule map_entry_distinct)
    show "(if a' = a then AList.map_entry p (AList.map_entry v f) pls else pls) =
          AList.map_ran (\<lambda>p'. AList.map_ran (\<lambda>v' r. if (a', p', v') = k then f r else r)) pls"
    proof (cases "a' = a")
      case True
      have "AList.map_ran (\<lambda>p' vs. if p' = p then AList.map_entry v f vs else vs) pls =
            AList.map_ran (\<lambda>p'. AList.map_ran (\<lambda>v' r. if (a', p', v') = k then f r else r)) pls"
        by (rule map_ran_cong_set) (auto simp: k True vs map_ran_ident intro!: map_ran_cong_set)
      with True show ?thesis by (simp add: pls)
    next
      case False
      then show ?thesis by (simp add: k map_ran_ident2)
    qed
  qed
  finally show ?thesis by (simp add: modify3_def k)
qed


lemma map_store_comp: "map_store g (map_store h d) = map_store (\<lambda>k r. g k (h k r)) d"
  by (simp add: map_store_def AList.map_ran_def split_def comp_def)

lemma map_store_id: "map_store (\<lambda>k r. r) d = d"
  by (simp add: map_store_def AList.map_ran_def split_def)

lemma wf_store_map_store: "wf_store (map_store g d) = wf_store d"
  by (auto simp: wf_store_def map_store_def AList.map_ran_def split_def comp_def)

lemma playlist_videos_map_ran:
  "playlist_videos a p (AList.map_ran (\<lambda>v. g (a, p, v)) vs) =
   map (\<lambda>(k, r). (k, g k r)) (playlist_videos a p vs)"
  by (induction vs) auto

lemma author_videos_map_ran:
  "author_videos a (AList.map_ran (\<lambda>p. AList.map_ran (\<lambda>v. g (a, p, v))) pls) =
   map (\<lambda>(k, r). (k, g k r)) (author_videos a pls)"
  by (induction pls) (auto simp: playlist_videos_map_ran)

lemma all_videos_map_store:
  "all_videos (map_store g d) = map (\<lambda>(k, r). (k, g k r)) (all_videos d)"
  unfolding map_store_def by (induction d) (auto simp: author_videos_map_ran)

lemma lookup3_map_store:
  "lookup3 (map_store g d) k = (case lookup3 d k of Inl e \<Rightarrow> Inl e | Inr r \<Rightarrow> Inr (g k r))"
proof -
  obtain a p v where k: "k = (a, p, v)" by (cases k)
  show ?thesis
    unfolding k lookup3_def map_store_def dict_getitem_def prod.case
    by (simp split: option.splits add: map_ran_conv)
qed

lemma in_playlist_videos:
  "(k, r) \<in> set (playlist_videos a p vs) \<longleftrightarrow> (\<exists>v. k = (a, p, v) \<and> (v, r) \<in> set vs)"
  by (induction vs) auto

lemma in_author_videos:
  "(k, r) \<in> set (author_videos a pls) \<longleftrightarrow>
     (\<exists>p vs v. k = (a, p, v) \<and> (p, vs) \<in> set pls \<and> (v, r) \<in> set vs)"
proof (induction pls)
  case Nil
  then show ?case by simp
next
  case (Cons x pls)
  obtain p vs where x: "x = (p, vs)" by (cases x)
  show ?case
    unfolding x author_videos.simps set_append Un_iff Cons.IH in_playlist_videos
    by (simp only: set_simps insert_iff prod.inject) blast
qed

lemma in_all_videos:
  "(k, r) \<in> set (all_videos d) \<longleftrightarrow>
     (\<exists>a pls p vs v. k = (a, p, v) \<and> (a, pls) \<in> set d \<and> (p, vs) \<in> set pls \<and> (v, r) \<in> set vs)"
proof (induction d)
  case Nil
  then show ?case by simp
next
  case (Cons x d)
  obtain a pls where x: "x = (a, pls)" by (cases x)
  show ?case
    unfolding x all_videos.simps set_append Un_iff Cons.IH in_author_videos
    by (simp only: set_simps insert_iff prod.inject) blast
qed

lemma lookup3_all_videos:
  assumes "wf_store d" and "(k, r) \<in> set (all_videos d)"
  shows "lookup3 d k = Inr r"
proof -
  from assms(2) obtain a pls p vs v where k: "k = (a, p, v)" and
    m: "(a, pls) \<in> set d" "(p, vs) \<in> set pls" "(v, r) \<in> set vs"
    unfolding in_all_videos by blast
  have "map_of d a = Some pls"
    using wf_storeD(1)[OF assms(1)] m(1) by simp
  moreover have "map_of pls p = Some vs"
    using wf_storeD(2)[OF assms(1) m(1)] m(2) by simp
  moreover have "map_of vs v = Some r"
    using wf_storeD(3)[OF assms(1) m(1) m(2)] m(3) by simp
  ultimately show ?thesis
    by (simp add: k lookup3_def dict_getitem_def)
qed

lemma all_videos_lookup3:
  assumes "lookup3 d k = Inr r"
  shows "(k, r) \<in> set (all_videos d)"
proof -
  obtain a p v where k: "k = (a, p, v)" by (cases k)
  from assms show ?thesis
    unfolding k in_all_videos lookup3_def dict_getitem_def
    by (auto split: option.splits dest!: map_of_SomeD)
qed

lemma playlist_videos_keys:
  "map fst (playlist_videos a p vs) = map (\<lambda>v. (a, p, v)) (map fst vs)"
  by (induction vs) auto

lemma distinct_author_videos:
  assumes "distinct (map fst pls)" and "\<forall>(p, vs) \<in> set pls. distinct (map fst vs)"
  shows "distinct (map fst (author_videos a pls))"
  using assms
proof (induction pls)
  case Nil
  then show ?case by simp
next
  case (Cons x pls)
  obtain p vs where x: "x = (p, vs)" by (cases x)
  have dvs: "distinct (map fst vs)" using Cons.prems(2) by (simp add: x)
  have dA: "distinct (map fst (playlist_videos a p vs))"
    unfolding playlist_videos_keys using dvs by (simp add: distinct_map inj_on_def)
  have dB: "distinct (map fst (author_videos a pls))"
    using Cons by (simp add: x)
  have p: "p \<notin> fst ` set pls" using Cons.prems(1) by (simp add: x)
  have "fst ` set (playlist_videos a p vs) \<inter> fst ` set (author_videos a pls) = {}"
    using p by (force simp: in_playlist_videos in_author_videos)
  with dA dB show ?case by (simp add: x)
qed

lemma distinct_all_videos_keys:
  assumes "wf_store d"
  shows "distinct (map fst (all_videos d))"
  using assms
proof (induction d)
  case Nil
  then show ?case by simp
next
  case (Cons x d)
  obtain a pls where x: "x = (a, pls)" by (cases x)
  from Cons.prems have wf: "a \<notin> fst ` set d" "distinct (map fst pls)"
    "\<forall>(p, vs) \<in> set pls. distinct (map fst vs)" "wf_store d"
    by (simp_all add: x wf_store_Cons)
  have "fst ` set (author_videos a pls) \<inter> fst ` set (all_videos d) = {}"
    using wf(1) by (force simp: in_author_videos in_all_videos)
  with distinct_author_videos[OF wf(2,3), of a] Cons.IH[OF wf(4)]
  show ?case by (simp add: x)
qed

lemma fold_all_videos:
  "fold (\<lambda>(a, pls). fold (\<lambda>(p, vs). fold (\<lambda>(v, r). step (a, p, v) r) vs) pls) d s =
   fold (\<lambda>(k, r). step k r) (all_videos d) s"
proof (induction d arbitrary: s)
  case Nil
  then show ?case by simp
next
  case (Cons x d)
  obtain a pls where x: "x = (a, pls)" by (cases x)
  have inner: "fold (\<lambda>(v, r). step (a, p, v) r) vs t =
               fold (\<lambda>(k, r). step k r) (playlist_videos a p vs) t" for p vs t
    by (induction vs arbitrary: t) auto
  have mid: "fold (\<lambda>(p, vs). fold (\<lambda>(v, r). step (a, p, v) r) vs) pls t =
             fold (\<lambda>(k, r). step k r) (author_videos a pls) t" for t
    by (induction pls arbitrary: t) (auto simp: inner)
  show ?case
    by (simp add: x mid Cons.IH)
qed

section \<open>The loops over the store\<close>

lemma extract_captions_all_videos:
  "extract_captions d =
     (map (\<lambda>kr. strip (get_captions (snd kr))) (filter nonblank (all_videos d)),
      map fst (filter nonblank (all_videos d)))"
proof -
  define step :: "video_key \<Rightarrow> VideoRecord \<Rightarrow> string list \<times> video_key list \<Rightarrow> string list \<times> video_key list"
    where "step = (\<lambda>k video_data (captions_list, video_id_map).
                 let c = strip (get_captions video_data) in
                 if c \<noteq> [] then (captions_list @ [c], video_id_map @ [k])
                 else (captions_list, video_id_map))"
  have "extract_captions d =
          fold (\<lambda>(a, pls). fold (\<lambda>(p, vs). fold (\<lambda>(v, r). step (a, p, v) r) vs) pls) d ([], [])"
    by (simp add: extract_captions_def step_def)
  also have "\<dots> = fold (\<lambda>(k, r). step k r) (all_videos d) ([], [])"
    by (rule fold_all_videos)
  also have "fold (\<lambda>(k, r). step k r) xs (cl, vm) =
       (cl @ map (\<lambda>kr. strip (get_captions (snd kr))) (filter nonblank xs),
        vm @ map fst (filter nonblank xs))" for xs cl vm
    by (induction xs arbitrary: cl vm) (auto simp: step_def nonblank_def Let_def)
  finally show ?thesis by simp
qed

lemma fold_append_replicate: "fold (\<lambda>_ m. m @ [k]) xs vm = vm @ replicate (length xs) k"
  by (induction xs arbitrary: vm) (auto simp: replicate_append_same)

lemma extract_captions_bert_all_videos:
  "extract_captions_bert tok d =
     (concat (map (\<lambda>kr. tok (strip (get_captions (snd kr)))) (filter nonblank (all_videos d))),
      concat (map (\<lambda>kr. replicate (length (tok (strip (get_captions (snd kr))))) (fst kr))
                (filter nonblank (all_videos d))))"
proof -
  define step :: "video_key \<Rightarrow> VideoRecord \<Rightarrow> string list \<times> video_key list \<Rightarrow> string list \<times> video_key list"
    where "step = (\<lambda>k video_data (captions_list, video_id_map).
                 let c = strip (get_captions video_data) in
                 if c \<noteq> [] then
                   (let sentences = tok c in
                    (captions_list @ sentences, fold (\<lambda>_ m. m @ [k]) sentences video_id_map))
                 else (captions_list, video_id_map))"
  have "extract_captions_bert tok d =
          fold (\<lambda>(a, pls). fold (\<lambda>(p, vs). fold (\<lambda>(v, r). step (a, p, v) r) vs) pls) d ([], [])"
    by (simp add: extract_captions_bert_def step_def)
  also have "\<dots> = fold (\<lambda>(k, r). step k r) (all_videos d) ([], [])"
    by (rule fold_all_videos)
  also have "fold (\<lambda>(k, r). step k r) xs (cl, vm) =
       (cl @ concat (map (\<lambda>kr. tok (strip (get_captions (snd kr)))) (filter nonblank xs)),
        vm @ concat (map (\<lambda>kr. replicate (length (tok (strip (get_captions (snd kr))))) (fst kr))
                (filter nonblank xs)))" for xs cl vm
    by (induction xs arbitrary: cl vm)
       (auto simp: step_def nonblank_def Let_def fold_append_replicate)
  finally show ?thesis by simp
qed

lemma fold_modify3:
  assumes "wf_store d" and over: "\<And>t t' r. upd t (upd t' r) = upd t r"
  shows "fold (\<lambda>(k, t). modify3 k (upd t)) as d = map_store (last_assigned as upd) d"
  using assms(1)
proof (induction as arbitrary: d)
  case Nil
  then show ?case by (simp add: last_assigned_def map_store_id)
next
  case (Cons x as)
  obtain k t where x: "x = (k, t)" by (cases x)
  let ?g = "\<lambda>k' r. if k' = k then upd t r else r"
  have wf': "wf_store (map_store ?g d)"
    using Cons.prems by (simp add: wf_store_map_store)
  have "fold (\<lambda>(k, t). modify3 k (upd t)) (x # as) d =
        fold (\<lambda>(k, t). modify3 k (upd t)) as (map_store ?g d)"
    by (simp add: x modify3_map_store[OF Cons.prems])
  also have "\<dots> = map_store (last_assigned as upd) (map_store ?g d)"
    by (rule Cons.IH[OF wf'])
  also have "\<dots> = map_store (\<lambda>k' r. last_assigned as upd k' (?g k' r)) d"
    by (rule map_store_comp)
  also have "(\<lambda>k' r. last_assigned as upd k' (?g k' r)) = last_assigned (x # as) upd"
    by (intro ext) (auto simp: last_assigned_def x map_add_def over split: option.splits)
  finally show ?case .
qed

section \<open>The assignment loops of the two topic modelers\<close>

lemma argmax_props:
  assumes "ws \<noteq> []"
  shows "\<exists>j. argmax ws = Inr j \<and> j < length ws \<and> (\<forall>x \<in> set ws. x \<le> ws ! j) \<and>
             (\<forall>i < j. ws ! i < ws ! j)"
proof -
  let ?P = "\<lambda>i. ws ! i = Max (set ws)"
  let ?f = "filter ?P [0..<length ws]"
  have "Max (set ws) \<in> set ws" using assms by simp
  then obtain i where i: "i < length ws" "ws ! i = Max (set ws)"
    by (auto simp: in_set_conv_nth)
  then have ne: "?f \<noteq> []" by (auto simp: filter_empty_conv)
  then have hd_in: "hd ?f \<in> set ?f" by (rule hd_in_set)
  then have j: "hd ?f < length ws" "ws ! hd ?f = Max (set ws)" by auto
  have first: "ws ! i' < ws ! hd ?f" if "i' < hd ?f" for i'
  proof -
    from ne obtain ys where f: "?f = hd ?f # ys" by (cases ?f) auto
    have srt: "sorted_wrt (<) ?f" by (rule sorted_wrt_filter) simp
    have "i' \<notin> set ?f"
    proof
      assume "i' \<in> set ?f"
      with f have "i' = hd ?f \<or> i' \<in> set ys" by (metis set_ConsD)
      moreover from srt f have "\<forall>y \<in> set ys. hd ?f < y" by (metis sorted_wrt.simps(2))
      ultimately show False using that by auto
    qed
    with that j(1) have "ws ! i' \<noteq> Max (set ws)" by auto
    moreover have "ws ! i' \<le> Max (set ws)" using that j(1) by simp
    ultimately show ?thesis using j(2) by simp
  qed
  show ?thesis
    using assms j first by (auto simp: argmax_def)
qed

lemma assign_topics_loop_fold:
  "assign_topics_loop xs W kws d = (e, d') \<Longrightarrow>
   \<exists>as. fst ` set as \<subseteq> snd ` set xs \<and> d' = fold (\<lambda>(k, t). modify3 k (\<lambda>r. r\<lparr>topic := Some t\<rparr>)) as d"
proof (induction xs arbitrary: d)
  case Nil
  then show ?case by (intro exI[of _ "[]"]) simp
next
  case (Cons x xs)
  obtain i k where x: "x = (i, k)" by (cases x)
  show ?case
  proof (cases "\<exists>row j kw d1. getitem W i = Inr row \<and> argmax row = Inr j \<and>
                  getitem kws j = Inr kw \<and> setitem3 k (\<lambda>r. r\<lparr>topic := Some kw\<rparr>) d = Inr d1")
    case True
    then obtain row j kw d1 where s: "getitem W i = Inr row" "argmax row = Inr j"
      "getitem kws j = Inr kw" "setitem3 k (\<lambda>r. r\<lparr>topic := Some kw\<rparr>) d = Inr d1" by blast
    from s(4) have d1: "d1 = modify3 k (\<lambda>r. r\<lparr>topic := Some kw\<rparr>) d"
      by (auto simp: setitem3_def split: sum.splits)
    from Cons.prems s have "assign_topics_loop xs W kws d1 = (e, d')" by (simp add: x)
    from Cons.IH[OF this] obtain as where
      as: "fst ` set as \<subseteq> snd ` set xs" "d' = fold (\<lambda>(k, t). modify3 k (\<lambda>r. r\<lparr>topic := Some t\<rparr>)) as d1"
      by blast
    show ?thesis
      using as by (intro exI[of _ "(k, kw) # as"]) (auto simp: d1 x)
  next
    case False
    with Cons.prems have "d' = d"
      by (auto simp: x split: sum.splits)
    then show ?thesis by (intro exI[of _ "[]"]) simp
  qed
qed


lemma assign_topics_bert_loop_fold:
  "assign_topics_bert_loop xs labels tk d = (e, d') \<Longrightarrow>
   \<exists>as. fst ` set as \<subseteq> snd ` set xs \<and> d' = fold (\<lambda>(k, t). modify3 k (\<lambda>r. r\<lparr>topic := Some t\<rparr>)) as d"
proof (induction xs arbitrary: d)
  case Nil
  then show ?case by (intro exI[of _ "[]"]) simp
next
  case (Cons x xs)
  obtain i k where x: "x = (i, k)" by (cases x)
  show ?case
  proof (cases "\<exists>l kw d1. getitem labels i = Inr l \<and> dict_getitem tk l = Inr kw \<and>
                  setitem3 k (\<lambda>r. r\<lparr>topic := Some (join '' '' kw)\<rparr>) d = Inr d1")
    case True
    then obtain l kw d1 where s: "getitem labels i = Inr l" "dict_getitem tk l = Inr kw"
      "setitem3 k (\<lambda>r. r\<lparr>topic := Some (join '' '' kw)\<rparr>) d = Inr d1" by blast
    from s(3) have d1: "d1 = modify3 k (\<lambda>r. r\<lparr>topic := Some (join '' '' kw)\<rparr>) d"
      by (auto simp: setitem3_def split: sum.splits)
    from Cons.prems s have "assign_topics_bert_loop xs labels tk d1 = (e, d')" by (simp add: x)
    from Cons.IH[OF this] obtain as where
      as: "fst ` set as \<subseteq> snd ` set xs" "d' = fold (\<lambda>(k, t). modify3 k (\<lambda>r. r\<lparr>topic := Some t\<rparr>)) as d1"
      by blast
    show ?thesis
      using as by (intro exI[of _ "(k, join '' '' kw) # as"]) (auto simp: d1 x)
  next
    case False
    with Cons.prems have "d' = d"
      by (auto simp: x split: sum.splits)
    then show ?thesis by (intro exI[of _ "[]"]) simp
  qed
qed

lemma wf_store_modify3: "wf_store d \<Longrightarrow> wf_store (modify3 k f d)"
  by (simp add: modify3_map_store wf_store_map_store)

lemma lookup3_modify3_ok:
  "wf_store d \<Longrightarrow> lookup3 d k' = Inr r \<Longrightarrow> \<exists>r'. lookup3 (modify3 k f d) k' = Inr r'"
  by (simp add: modify3_map_store lookup3_map_store)

lemma setitem3_ok: "lookup3 d k = Inr r \<Longrightarrow> setitem3 k f d = Inr (modify3 k f d)"
  by (simp add: setitem3_def)

lemma assign_topics_loop_ok:
  assumes "wf_store d"
    and "\<forall>(i, k) \<in> set xs. i < length W \<and> W ! i \<noteq> [] \<and> length (W ! i) \<le> length kws \<and>
           (\<exists>r. lookup3 d k = Inr r)"
  shows "assign_topics_loop xs W kws d =
           (None, fold (\<lambda>(k, t). modify3 k (\<lambda>r. r\<lparr>topic := Some t\<rparr>))
                    (map (\<lambda>(i, k). (k, kws ! projr (argmax (W ! i)))) xs) d)"
  using assms
proof (induction xs arbitrary: d)
  case Nil
  then show ?case by simp
next
  case (Cons x xs)
  obtain i k where x: "x = (i, k)" by (cases x)
  from Cons.prems(2) have i: "i < length W" "W ! i \<noteq> []" "length (W ! i) \<le> length kws"
    and k: "\<exists>r. lookup3 d k = Inr r" by (auto simp: x)
  from argmax_props[OF i(2)] obtain j where j: "argmax (W ! i) = Inr j" "j < length (W ! i)"
    by blast
  let ?d1 = "modify3 k (\<lambda>r. r\<lparr>topic := Some (kws ! j)\<rparr>) d"
  have wf1: "wf_store ?d1" using Cons.prems(1) by (rule wf_store_modify3)
  have rest: "\<forall>(i, k) \<in> set xs. i < length W \<and> W ! i \<noteq> [] \<and> length (W ! i) \<le> length kws \<and>
           (\<exists>r. lookup3 ?d1 k = Inr r)"
    using Cons.prems(2) lookup3_modify3_ok[OF Cons.prems(1)] by (simp add: split_def) blast
  from k obtain r where r: "lookup3 d k = Inr r" by blast
  have "assign_topics_loop (x # xs) W kws d = assign_topics_loop xs W kws ?d1"
    using i j by (simp add: x getitem_def setitem3_ok[OF r])
  then show ?case
    using Cons.IH[OF wf1 rest] j by (simp add: x)
qed

lemma assign_topics_bert_loop_ok:
  assumes "wf_store d"
    and "\<forall>(i, k) \<in> set xs. i < length labels \<and> (\<exists>kw. dict_getitem tk (labels ! i) = Inr kw) \<and>
           (\<exists>r. lookup3 d k = Inr r)"
  shows "assign_topics_bert_loop xs labels tk d =
           (None, fold (\<lambda>(k, t). modify3 k (\<lambda>r. r\<lparr>topic := Some t\<rparr>))
                    (map (\<lambda>(i, k). (k, join '' '' (projr (dict_getitem tk (labels ! i))))) xs) d)"
  using assms
proof (induction xs arbitrary: d)
  case Nil
  then show ?case by simp
next
  case (Cons x xs)
  obtain i k where x: "x = (i, k)" by (cases x)
  from Cons.prems(2) obtain kw r where i: "i < length labels"
    and kw: "dict_getitem tk (labels ! i) = Inr kw"
    and r: "lookup3 d k = Inr r" by (auto simp: x)
  let ?d1 = "modify3 k (\<lambda>r. r\<lparr>topic := Some (join '' '' kw)\<rparr>) d"
  have wf1: "wf_store ?d1" using Cons.prems(1) by (rule wf_store_modify3)
  have rest: "\<forall>(i, k) \<in> set xs. i < length labels \<and> (\<exists>kw. dict_getitem tk (labels ! i) = Inr kw) \<and>
           (\<exists>r. lookup3 ?d1 k = Inr r)"
    using Cons.prems(2) lookup3_modify3_ok[OF Cons.prems(1)] by (simp add: split_def) blast
  have "assign_topics_bert_loop (x # xs) labels tk d = assign_topics_bert_loop xs labels tk ?d1"
    using i kw by (simp add: x getitem_def setitem3_ok[OF r])
  then show ?case
    using Cons.IH[OF wf1 rest] kw by (simp add: x)
qed

lemma topic_overwrite:
  "(r\<lparr>topic := Some t'\<rparr>)\<lparr>topic := Some t\<rparr> = (r :: VideoRecord)\<lparr>topic := Some t\<rparr>"
  by simp

lemma in_set_enumerate_0: "(i, k) \<in> set (enumerate 0 xs) \<longleftrightarrow> i < length xs \<and> xs ! i = k"
  by (auto simp: in_set_enumerate_eq)

section \<open>TopicModeling: the keyword strings\<close>

lemma topic_keyword_Inr:
  assumes "length topic_row = length terms"
  shows "topic_keyword terms topic_row =
           Inr (join '' '' (map ((!) terms) (slice_last 10 (argsort topic_row))))"
proof -
  have "\<forall>i \<in> set (slice_last 10 (argsort topic_row)). i < length terms"
    using slice_last_props(3)[where n = 10 and ws = topic_row] assms by auto
  then show ?thesis
    by (simp add: topic_keyword_def map_err_getitem)
qed




section \<open>The empty-input guard of the two topic modelers\<close>

lemma strip_Nil: "strip [] = []"
  by (simp add: strip_def)

lemma extract_captions_blank:
  assumes "\<forall>kr \<in> set (all_videos d). \<not> nonblank kr"
  shows "extract_captions d = ([], [])" and "extract_captions_bert tok d = ([], [])"
proof -
  from assms have "filter nonblank (all_videos d) = []"
    by (simp add: filter_empty_conv)
  then show "extract_captions d = ([], [])" and "extract_captions_bert tok d = ([], [])"
    by (simp_all add: extract_captions_all_videos extract_captions_bert_all_videos)
qed

text \<open>
  C3: when no video of the store has a non-empty \<open>captions\<close> value (in particular when
  the store has no video), \<open>run\<close> of either topic modeler prints the "no captions"
  message and returns: the store in memory and the file on disk are those it started with.
\<close>

theorem run_no_captions:
  assumes "\<forall>(k, r) \<in> set (all_videos (data st)). captions r = None \<or> captions r = Some []"
  shows "run tfidf nmf io dump num_topics st =
           (None, st\<lparr>printed := printed st @ [NoCaptionsFound]\<rparr>) \<and>
         run_bert sent_tokenize get_bert_embeddings kmeans count_vectorizer io dump num_topics st =
           (None, st\<lparr>printed := printed st @ [NoCaptionsFound]\<rparr>)"
proof -
  have "\<forall>kr \<in> set (all_videos (data st)). \<not> nonblank kr"
    using assms by (auto simp: nonblank_def get_captions_def strip_Nil)
  then show ?thesis
    by (simp add: run_def run_bert_def extract_captions_blank)
qed

theorem run_no_captions_witness:
  "run (\<lambda>cs. Inl (ExternalError ''unused''))
     (\<lambda>n seed (X :: unit). Inl (ExternalError ''unused'') :: error + nat list list \<times> nat list list)
     None (\<lambda>d. ''new'') 5
     \<lparr>data = [(''A'', [(''P'', [(''v'', \<lparr>captions = Some [], comments = None, topic = None\<rparr>)]),
                       (''Q'', [])])],
      disk = ''old'', printed = []\<rparr> =
   (None, \<lparr>data = [(''A'', [(''P'', [(''v'', \<lparr>captions = Some [], comments = None, topic = None\<rparr>)]),
                              (''Q'', [])])],
           disk = ''old'', printed = [NoCaptionsFound]\<rparr>) \<and>
   run_bert (\<lambda>c. [c]) (\<lambda>cs. Inr ()) (\<lambda>n seed (E :: unit). Inr []) (\<lambda>cs. Inr ([], []))
     None (\<lambda>d. ''new'') 5
     \<lparr>data = [(''A'', [(''P'', [(''v'', \<lparr>captions = Some [], comments = None, topic = None\<rparr>)]),
                       (''Q'', [])])],
      disk = ''old'', printed = []\<rparr> =
   (None, \<lparr>data = [(''A'', [(''P'', [(''v'', \<lparr>captions = Some [], comments = None, topic = None\<rparr>)]),
                              (''Q'', [])])],
           disk = ''old'', printed = [NoCaptionsFound]\<rparr>)"
  using run_no_captions
    [where st = "\<lparr>data = [(''A'', [(''P'', [(''v'', \<lparr>captions = Some [], comments = None, topic = None\<rparr>)]),
                       (''Q'', [])])], disk = ''old'', printed = []\<rparr>"
       and tfidf = "\<lambda>cs. Inl (ExternalError ''unused'')"
       and nmf = "\<lambda>n seed (X :: unit). Inl (ExternalError ''unused'') :: error + nat list list \<times> nat list list"
       and io = None and dump = "\<lambda>d. ''new''" and num_topics = 5
       and sent_tokenize = "\<lambda>c. [c]" and get_bert_embeddings = "\<lambda>cs. Inr ()"
       and kmeans = "\<lambda>n seed (E :: unit). Inr []" and count_vectorizer = "\<lambda>cs. Inr ([], [])"]
  by simp

section \<open>What the topic modelers leave alone\<close>

lemma strip_eq_Nil: "strip s = [] \<longleftrightarrow> (\<forall>c \<in> set s. py_isspace c)"
proof
  assume "strip s = []"
  then have all: "\<forall>c \<in> set (dropWhile py_isspace s). py_isspace c"
    by (simp add: strip_def dropWhile_eq_Nil_conv)
  have "dropWhile py_isspace s = []"
  proof (rule ccontr)
    assume ne: "dropWhile py_isspace s \<noteq> []"
    then have "\<not> py_isspace (hd (dropWhile py_isspace s))" by (rule hd_dropWhile)
    moreover have "hd (dropWhile py_isspace s) \<in> set (dropWhile py_isspace s)"
      using ne by (rule hd_in_set)
    ultimately show False using all by blast
  qed
  then show "\<forall>c \<in> set s. py_isspace c" by (rule dropWhile_eq_Nil_conv[THEN iffD1])
next
  assume "\<forall>c \<in> set s. py_isspace c"
  then have "dropWhile py_isspace s = []" by (rule dropWhile_eq_Nil_conv[THEN iffD2])
  then show "strip s = []" by (simp only: strip_def rev.simps dropWhile.simps)
qed

lemma blank_captions_nonblank: "blank_captions (snd kr) \<longleftrightarrow> \<not> nonblank kr"
  by (auto simp: blank_captions_def nonblank_def get_captions_def strip_eq_Nil split: option.splits)

lemma extract_captions_keys:
  "set (snd (extract_captions d)) = fst ` set (filter nonblank (all_videos d))"
  by (simp add: extract_captions_all_videos)

lemma extract_captions_bert_keys:
  "set (snd (extract_captions_bert tok d)) \<subseteq> fst ` set (filter nonblank (all_videos d))"
  by (force simp: extract_captions_bert_all_videos)

lemma blank_not_in_map:
  assumes "wf_store d" and "(k, r) \<in> set (all_videos d)" and "blank_captions r"
  shows "k \<notin> fst ` set (filter nonblank (all_videos d))"
proof
  assume "k \<in> fst ` set (filter nonblank (all_videos d))"
  then obtain r' where r': "(k, r') \<in> set (all_videos d)" "nonblank (k, r')" by auto
  from lookup3_all_videos[OF assms(1) r'(1)] lookup3_all_videos[OF assms(1,2)]
  have "r' = r" by simp
  with r'(2) assms(3) blank_captions_nonblank[of "(k, r)"] show False by simp
qed

lemma fold_topics_frame:
  assumes "wf_store d" and "fst ` set as \<subseteq> fst ` set (filter nonblank (all_videos d))"
  shows "list_all2 topic_only (all_videos d)
           (all_videos (fold (\<lambda>(k, t). modify3 k (\<lambda>r. r\<lparr>topic := Some t\<rparr>)) as d))"
proof -
  let ?g = "last_assigned as (\<lambda>t r. r\<lparr>topic := Some t\<rparr>)"
  have eq: "fold (\<lambda>(k, t). modify3 k (\<lambda>r. r\<lparr>topic := Some t\<rparr>)) as d = map_store ?g d"
    using assms(1) by (rule fold_modify3) simp
  have "topic_only kr (case kr of (k, r) \<Rightarrow> (k, ?g k r))" if "kr \<in> set (all_videos d)" for kr
  proof -
    obtain k r where kr: "kr = (k, r)" by (cases kr)
    have "?g k r = r" if "blank_captions r"
    proof -
      have "(k, r) \<in> set (all_videos d)"
        using \<open>kr \<in> set (all_videos d)\<close> by (simp add: kr)
      from blank_not_in_map[OF assms(1) this that] assms(2)
      have "k \<notin> fst ` set as" by blast
      then have "map_of (rev as) k = None" by (simp add: map_of_eq_None_iff)
      then show ?thesis by (simp add: last_assigned_def)
    qed
    then show ?thesis
      by (auto simp: kr topic_only_def last_assigned_def split: option.splits)
  qed
  then show ?thesis
    unfolding eq all_videos_map_store
    by (simp add: list_all2_map2 list.rel_refl_strong)
qed

lemma run_data:
  "\<exists>as. fst ` set as \<subseteq> set (snd (extract_captions (data st))) \<and>
        data (snd (run tfidf nmf io dump n st)) =
          fold (\<lambda>(k, t). modify3 k (\<lambda>r. r\<lparr>topic := Some t\<rparr>)) as (data st)"
proof -
  obtain cl vm where ex: "extract_captions (data st) = (cl, vm)" by (cases "extract_captions (data st)")
  have triv: "\<exists>as. fst ` set as \<subseteq> set vm \<and>
        data st = fold (\<lambda>(k, t). modify3 k (\<lambda>r. r\<lparr>topic := Some t\<rparr>)) as (data st)"
    by (intro exI[of _ "[]"]) simp
  show ?thesis
  proof (cases "cl = []")
    case True
    with triv show ?thesis by (simp add: run_def ex)
  next
    case False
    show ?thesis
    proof (cases "topic_modeling tfidf nmf n cl")
      case (Inl e)
      with triv False show ?thesis by (simp add: run_def ex)
    next
      case (Inr res)
      obtain kws W where res: "res = (kws, W)" by (cases res)
      obtain e d' where a: "assign_topics vm W kws (data st) = (e, d')"
        by (cases "assign_topics vm W kws (data st)")
      from assign_topics_loop_fold[OF a[unfolded assign_topics_def]] obtain as where
        as: "fst ` set as \<subseteq> snd ` set (enumerate 0 vm)"
            "d' = fold (\<lambda>(k, t). modify3 k (\<lambda>r. r\<lparr>topic := Some t\<rparr>)) as (data st)" by blast
      have "snd ` set (enumerate 0 vm) = set vm" by (metis list.set_map map_snd_enumerate)
      with as(1) have sub: "fst ` set as \<subseteq> set vm" by simp
      have "data (snd (run tfidf nmf io dump n st)) = d'"
        using False Inr res a by (cases e; cases io) (simp_all add: run_def ex save_data_def)
      with as(2) sub show ?thesis by (auto simp: ex)
    qed
  qed
qed

lemma run_bert_data:
  "\<exists>as. fst ` set as \<subseteq> set (snd (extract_captions_bert tok (data st))) \<and>
        data (snd (run_bert tok emb km cv io dump n st)) =
          fold (\<lambda>(k, t). modify3 k (\<lambda>r. r\<lparr>topic := Some t\<rparr>)) as (data st)"
proof -
  obtain cl vm where ex: "extract_captions_bert tok (data st) = (cl, vm)"
    by (cases "extract_captions_bert tok (data st)")
  have triv: "\<exists>as. fst ` set as \<subseteq> set vm \<and>
        data st = fold (\<lambda>(k, t). modify3 k (\<lambda>r. r\<lparr>topic := Some t\<rparr>)) as (data st)"
    by (intro exI[of _ "[]"]) simp
  show ?thesis
  proof (cases "cl = []")
    case True
    with triv show ?thesis by (simp add: run_bert_def ex)
  next
    case False
    show ?thesis
    proof (cases "topic_modeling_bert emb km n cl")
      case (Inl e)
      with triv False show ?thesis by (simp add: run_bert_def ex)
    next
      case (Inr res)
      obtain labels E where res: "res = (labels, E)" by (cases res)
      show ?thesis
      proof (cases "get_top_keywords_for_topics cv n cl labels 5")
        case (Inl e)
        with triv False Inr res show ?thesis by (simp add: run_bert_def ex)
      next
        case tk: (Inr tk)
        obtain e d' where a: "assign_topics_bert vm labels tk (data st) = (e, d')"
          by (cases "assign_topics_bert vm labels tk (data st)")
        from assign_topics_bert_loop_fold[OF a[unfolded assign_topics_bert_def]] obtain as where
          as: "fst ` set as \<subseteq> snd ` set (enumerate 0 vm)"
              "d' = fold (\<lambda>(k, t). modify3 k (\<lambda>r. r\<lparr>topic := Some t\<rparr>)) as (data st)" by blast
        have "snd ` set (enumerate 0 vm) = set vm" by (metis list.set_map map_snd_enumerate)
        with as(1) have sub: "fst ` set as \<subseteq> set vm" by simp
        have "data (snd (run_bert tok emb km cv io dump n st)) = d'"
          using False Inr res tk a by (cases e; cases io) (simp_all add: run_bert_def ex save_data_def)
        with as(2) sub show ?thesis by (auto simp: ex)
      qed
    qed
  qed
qed

text \<open>
  C9: in a store with unique keys, after \<open>run\<close> of either topic modeler (whether it ends
  normally or with an exception) the videos of the store are the same, in the same
  order, each with its captions and comments unchanged; a video whose captions are
  absent, empty or whitespace-only is not in the video-ID map handed to the vectorizer
  and its record is unchanged.
\<close>

theorem topic_modelers_frame:
  assumes "wf_store (data st)"
  shows "list_all2 topic_only (all_videos (data st))
           (all_videos (data (snd (run tfidf nmf io dump num_topics st)))) \<and>
         list_all2 topic_only (all_videos (data st))
           (all_videos (data (snd (run_bert sent_tokenize get_bert_embeddings kmeans
                                     count_vectorizer io dump num_topics st)))) \<and>
         (\<forall>(k, r) \<in> set (all_videos (data st)). blank_captions r \<longrightarrow>
            k \<notin> set (snd (extract_captions (data st))) \<and>
            k \<notin> set (snd (extract_captions_bert sent_tokenize (data st))))"
proof (intro conjI)
  from run_data[where st = st and tfidf = tfidf and nmf = nmf and io = io and dump = dump
                  and n = num_topics] obtain as where
    as: "fst ` set as \<subseteq> set (snd (extract_captions (data st)))"
        "data (snd (run tfidf nmf io dump num_topics st)) =
           fold (\<lambda>(k, t). modify3 k (\<lambda>r. r\<lparr>topic := Some t\<rparr>)) as (data st)" by blast
  show "list_all2 topic_only (all_videos (data st))
           (all_videos (data (snd (run tfidf nmf io dump num_topics st))))"
    unfolding as(2) using assms as(1) by (intro fold_topics_frame) (simp_all add: extract_captions_keys)
  from run_bert_data[where st = st and tok = sent_tokenize and emb = get_bert_embeddings
                       and km = kmeans and cv = count_vectorizer and io = io and dump = dump
                       and n = num_topics]
  obtain bs where
    bs: "fst ` set bs \<subseteq> set (snd (extract_captions_bert sent_tokenize (data st)))"
        "data (snd (run_bert sent_tokenize get_bert_embeddings kmeans count_vectorizer io dump num_topics st)) =
           fold (\<lambda>(k, t). modify3 k (\<lambda>r. r\<lparr>topic := Some t\<rparr>)) bs (data st)" by blast
  show "list_all2 topic_only (all_videos (data st))
           (all_videos (data (snd (run_bert sent_tokenize get_bert_embeddings kmeans
                                     count_vectorizer io dump num_topics st))))"
    unfolding bs(2) using assms bs(1) extract_captions_bert_keys[of sent_tokenize "data st"]
    by (intro fold_topics_frame) auto
  show "\<forall>(k, r) \<in> set (all_videos (data st)). blank_captions r \<longrightarrow>
            k \<notin> set (snd (extract_captions (data st))) \<and>
            k \<notin> set (snd (extract_captions_bert sent_tokenize (data st)))"
  proof (intro ballI, unfold split_paired_all prod.case, intro impI)
    fix a p v r
    assume "((a, p, v), r) \<in> set (all_videos (data st))" and "blank_captions r"
    with assms have "(a, p, v) \<notin> fst ` set (filter nonblank (all_videos (data st)))"
      by (rule blank_not_in_map)
    then show "(a, p, v) \<notin> set (snd (extract_captions (data st))) \<and>
            (a, p, v) \<notin> set (snd (extract_captions_bert sent_tokenize (data st)))"
      unfolding extract_captions_keys
      using extract_captions_bert_keys[of sent_tokenize "data st"] by blast
  qed
qed

theorem topic_modelers_frame_witness:
  "wf_store (data example_state) \<and>
   list_all2 topic_only (all_videos (data example_state))
     (all_videos (data (snd (run example_tfidf example_nmf None example_dump 2 example_state)))) \<and>
   list_all2 topic_only (all_videos (data example_state))
     (all_videos (data (snd (run_bert example_sent_tokenize example_embeddings example_kmeans
                               example_count_vectorizer None example_dump 2 example_state)))) \<and>
   map (\<lambda>kr. topic (snd kr))
     (all_videos (data (snd (run example_tfidf example_nmf None example_dump 2 example_state)))) =
     [Some ''fish bark dogs swim purr cats'', Some ''old'', Some ''cats dogs purr bark swim fish''] \<and>
   map (\<lambda>kr. topic (snd kr))
     (all_videos (data (snd (run_bert example_sent_tokenize example_embeddings example_kmeans
                               example_count_vectorizer None example_dump 2 example_state)))) =
     [Some ''dogs bark swim purr fish'', Some ''old'', Some ''fish swim cats purr dogs'']"
proof -
  have wf: "wf_store (data example_state)" by code_simp
  have t1: "map (\<lambda>kr. topic (snd kr))
     (all_videos (data (snd (run example_tfidf example_nmf None example_dump 2 example_state)))) =
     [Some ''fish bark dogs swim purr cats'', Some ''old'', Some ''cats dogs purr bark swim fish'']"
    by code_simp
  have t2: "map (\<lambda>kr. topic (snd kr))
     (all_videos (data (snd (run_bert example_sent_tokenize example_embeddings example_kmeans
                               example_count_vectorizer None example_dump 2 example_state)))) =
     [Some ''dogs bark swim purr fish'', Some ''old'', Some ''fish swim cats purr dogs'']"
    by code_simp
  from topic_modelers_frame[OF wf, where tfidf = example_tfidf and nmf = example_nmf
         and io = None and dump = example_dump and num_topics = 2
         and sent_tokenize = example_sent_tokenize and get_bert_embeddings = example_embeddings
         and kmeans = example_kmeans and count_vectorizer = example_count_vectorizer]
       wf t1 t2
  show ?thesis by blast
qed

section \<open>The video-ID map and the indices of the assignment loops\<close>

lemma extract_captions_lengths:
  "length (fst (extract_captions d)) = length (snd (extract_captions d))"
  "length (fst (extract_captions_bert tok d)) = length (snd (extract_captions_bert tok d))"
  by (simp_all add: extract_captions_all_videos extract_captions_bert_all_videos
        length_concat comp_def)

lemma video_id_map_present:
  assumes "wf_store d" and "k \<in> fst ` set (filter nonblank (all_videos d))"
  shows "\<exists>r. lookup3 d k = Inr r"
proof -
  from assms(2) obtain r where "(k, r) \<in> set (all_videos d)" by auto
  with assms(1) have "lookup3 d k = Inr r" by (rule lookup3_all_videos)
  then show ?thesis ..
qed

lemma assign_topics_ok:
  assumes "wf_store d" and "set vm \<subseteq> fst ` set (filter nonblank (all_videos d))"
    and "length W = length vm" and "\<forall>row \<in> set W. row \<noteq> [] \<and> length row \<le> length kws"
  shows "assign_topics vm W kws d =
           (None, map_store (last_assigned (map (\<lambda>(i, k). (k, kws ! projr (argmax (W ! i))))
                                              (enumerate 0 vm))
                               (\<lambda>t r. r\<lparr>topic := Some t\<rparr>)) d)"
proof -
  have "\<forall>(i, k) \<in> set (enumerate 0 vm). i < length W \<and> W ! i \<noteq> [] \<and>
          length (W ! i) \<le> length kws \<and> (\<exists>r. lookup3 d k = Inr r)"
  proof (intro ballI, unfold split_paired_all prod.case)
    fix i k assume "(i, k) \<in> set (enumerate 0 vm)"
    then have i: "i < length vm" "vm ! i = k" by (simp_all add: in_set_enumerate_0)
    then have "k \<in> set vm" by auto
    with assms(2) have "\<exists>r. lookup3 d k = Inr r"
      by (intro video_id_map_present[OF assms(1)]) blast
    moreover have "W ! i \<in> set W" using i(1) assms(3) by simp
    ultimately show "i < length W \<and> W ! i \<noteq> [] \<and> length (W ! i) \<le> length kws \<and>
          (\<exists>r. lookup3 d k = Inr r)"
      using assms(3,4) i(1) by simp
  qed
  from assign_topics_loop_ok[OF assms(1) this] show ?thesis
    by (simp add: assign_topics_def fold_modify3[OF assms(1)])
qed

lemma assign_topics_bert_ok:
  assumes "wf_store d" and "set vm \<subseteq> fst ` set (filter nonblank (all_videos d))"
    and "length labels = length vm" and "\<forall>l \<in> set labels. \<exists>kws. dict_getitem tk l = Inr kws"
  shows "assign_topics_bert vm labels tk d =
           (None, map_store (last_assigned
                               (map (\<lambda>(i, k). (k, join '' '' (projr (dict_getitem tk (labels ! i)))))
                                  (enumerate 0 vm))
                               (\<lambda>t r. r\<lparr>topic := Some t\<rparr>)) d)"
proof -
  have "\<forall>(i, k) \<in> set (enumerate 0 vm). i < length labels \<and>
          (\<exists>kw. dict_getitem tk (labels ! i) = Inr kw) \<and> (\<exists>r. lookup3 d k = Inr r)"
  proof (intro ballI, unfold split_paired_all prod.case)
    fix i k assume "(i, k) \<in> set (enumerate 0 vm)"
    then have i: "i < length vm" "vm ! i = k" by (simp_all add: in_set_enumerate_0)
    then have "k \<in> set vm" by auto
    with assms(2) have "\<exists>r. lookup3 d k = Inr r"
      by (intro video_id_map_present[OF assms(1)]) blast
    moreover have "labels ! i \<in> set labels" using i(1) assms(3) by simp
    ultimately show "i < length labels \<and>
          (\<exists>kw. dict_getitem tk (labels ! i) = Inr kw) \<and> (\<exists>r. lookup3 d k = Inr r)"
      using assms(3,4) i(1) by simp
  qed
  from assign_topics_bert_loop_ok[OF assms(1) this] show ?thesis
    by (simp add: assign_topics_bert_def fold_modify3[OF assms(1)])
qed

text \<open>
  C10: in a store with unique keys, the captions list and the video-ID map returned by
  \<open>extract_captions\<close> have the same length in both modelers, and every key of the map
  is the key of a record of the store. So, when \<open>W\<close> has one row per caption (each row
  non-empty and no longer than the list of keyword strings), respectively when there
  is one cluster label per sentence (each label with an entry in the keyword dict),
  \<open>assign_topics\<close> raises nothing: no row index and no store lookup is out of range.
\<close>

theorem video_id_map_in_range:
  assumes "wf_store d"
  shows "length (fst (extract_captions d)) = length (snd (extract_captions d)) \<and>
         length (fst (extract_captions_bert sent_tokenize d)) =
           length (snd (extract_captions_bert sent_tokenize d)) \<and>
         (\<forall>k \<in> set (snd (extract_captions d)) \<union> set (snd (extract_captions_bert sent_tokenize d)).
            \<exists>r. lookup3 d k = Inr r) \<and>
         (length W = length (fst (extract_captions d)) \<and>
          (\<forall>row \<in> set W. row \<noteq> [] \<and> length row \<le> length topic_keywords) \<longrightarrow>
            fst (assign_topics (snd (extract_captions d)) W topic_keywords d) = None) \<and>
         (length kmeans_labels = length (fst (extract_captions_bert sent_tokenize d)) \<and>
          (\<forall>l \<in> set kmeans_labels. \<exists>kws. dict_getitem keyword_dict l = Inr kws) \<longrightarrow>
            fst (assign_topics_bert (snd (extract_captions_bert sent_tokenize d))
                   kmeans_labels keyword_dict d) = None)"
proof (intro conjI impI)
  show "length (fst (extract_captions d)) = length (snd (extract_captions d))"
    by (rule extract_captions_lengths)
  show "length (fst (extract_captions_bert sent_tokenize d)) =
           length (snd (extract_captions_bert sent_tokenize d))"
    by (rule extract_captions_lengths)
  show "\<forall>k \<in> set (snd (extract_captions d)) \<union> set (snd (extract_captions_bert sent_tokenize d)).
            \<exists>r. lookup3 d k = Inr r"
    using video_id_map_present[OF assms] extract_captions_bert_keys[of sent_tokenize d]
    unfolding extract_captions_keys by blast
next
  assume a: "length W = length (fst (extract_captions d)) \<and>
          (\<forall>row \<in> set W. row \<noteq> [] \<and> length row \<le> length topic_keywords)"
  have "assign_topics (snd (extract_captions d)) W topic_keywords d =
          (None, map_store (last_assigned (map (\<lambda>(i, k). (k, topic_keywords ! projr (argmax (W ! i))))
                                              (enumerate 0 (snd (extract_captions d))))
                               (\<lambda>t r. r\<lparr>topic := Some t\<rparr>)) d)"
    using a by (intro assign_topics_ok[OF assms])
               (simp_all add: extract_captions_keys extract_captions_lengths)
  then show "fst (assign_topics (snd (extract_captions d)) W topic_keywords d) = None" by simp
next
  assume a: "length kmeans_labels = length (fst (extract_captions_bert sent_tokenize d)) \<and>
          (\<forall>l \<in> set kmeans_labels. \<exists>kws. dict_getitem keyword_dict l = Inr kws)"
  have "assign_topics_bert (snd (extract_captions_bert sent_tokenize d)) kmeans_labels keyword_dict d =
          (None, map_store (last_assigned
                    (map (\<lambda>(i, k). (k, join '' '' (projr (dict_getitem keyword_dict (kmeans_labels ! i)))))
                       (enumerate 0 (snd (extract_captions_bert sent_tokenize d))))
                    (\<lambda>t r. r\<lparr>topic := Some t\<rparr>)) d)"
    using a extract_captions_bert_keys[of sent_tokenize d]
    by (intro assign_topics_bert_ok[OF assms]) (simp_all only: extract_captions_lengths, blast+)
  then show "fst (assign_topics_bert (snd (extract_captions_bert sent_tokenize d))
                   kmeans_labels keyword_dict d) = None" by simp
qed

theorem video_id_map_in_range_witness:
  "wf_store example_store \<and>
   length (fst (extract_captions example_store)) = length (snd (extract_captions example_store)) \<and>
   length (fst (extract_captions_bert example_sent_tokenize example_store)) =
     length (snd (extract_captions_bert example_sent_tokenize example_store)) \<and>
   snd (extract_captions_bert example_sent_tokenize example_store) =
     [(''ChannelA'', ''PL1'', ''vid1''), (''ChannelA'', ''PL1'', ''vid1''),
      (''ChannelB'', ''PL3'', ''vid3'')] \<and>
   fst (assign_topics (snd (extract_captions example_store)) [[2, 1], [1, 3 :: nat]]
          [''first topic'', ''second topic''] example_store) = None \<and>
   fst (assign_topics_bert (snd (extract_captions_bert example_sent_tokenize example_store))
          [0, 1, 0] [(0, [''fish'', ''cats'']), (1, [''dogs''])] example_store) = None"
proof -
  have wf: "wf_store example_store" by code_simp
  have m: "snd (extract_captions_bert example_sent_tokenize example_store) =
     [(''ChannelA'', ''PL1'', ''vid1''), (''ChannelA'', ''PL1'', ''vid1''),
      (''ChannelB'', ''PL3'', ''vid3'')]" by code_simp
  have p1: "length [[2, 1], [1, 3 :: nat]] = length (fst (extract_captions example_store)) \<and>
          (\<forall>row \<in> set [[2, 1], [1, 3 :: nat]]. row \<noteq> [] \<and>
             length row \<le> length [''first topic'', ''second topic''])"
    by code_simp
  have p2: "length [0, 1, 0 :: nat] =
            length (fst (extract_captions_bert example_sent_tokenize example_store)) \<and>
          (\<forall>l \<in> set [0, 1, 0 :: nat].
             \<exists>kws. dict_getitem [(0, [''fish'', ''cats'']), (1, [''dogs''])] l = Inr kws)"
    by (simp add: extract_captions_lengths m dict_getitem_def)
  from video_id_map_in_range[OF wf, where sent_tokenize = example_sent_tokenize
         and W = "[[2, 1], [1, 3 :: nat]]" and topic_keywords = "[''first topic'', ''second topic'']"
         and kmeans_labels = "[0, 1, 0]"
         and keyword_dict = "[(0, [''fish'', ''cats'']), (1, [''dogs''])]"]
       wf m p1 p2
  show ?thesis by blast
qed

section \<open>TopicModeling: the topic assigned to a video\<close>

lemma map_of_rev_distinct:
  assumes "distinct (map fst as)" and "(k, t) \<in> set as"
  shows "map_of (rev as) k = Some t"
  using assms by (intro map_of_is_SomeI) (simp_all add: rev_map[symmetric])

lemma enumerate_assignments_keys:
  "map fst (map (\<lambda>(i, k). (k, f i)) (enumerate 0 vm)) = vm"
proof -
  have "map fst (map (\<lambda>(i, k). (k, f i)) (enumerate 0 vm)) = map snd (enumerate 0 vm)"
    by (simp add: split_def comp_def)
  then show ?thesis by simp
qed

lemma distinct_extract_captions:
  assumes "wf_store d"
  shows "distinct (snd (extract_captions d))"
  using distinct_all_videos_keys[OF assms]
  by (simp add: extract_captions_all_videos distinct_map_filter)

lemma lookup3_last_assigned:
  assumes "lookup3 d k = Inr r"
  shows "lookup3 (map_store (last_assigned as upd) d) k =
           Inr (case map_of (rev as) k of None \<Rightarrow> r | Some t \<Rightarrow> upd t r)"
  using assms by (simp add: lookup3_map_store last_assigned_def)

lemma assign_topics_one_video:
  "assign_topics [(a, p, v)] [[w]] [kw] [(a, [(p, [(v, r)])])] =
     (None, [(a, [(p, [(v, r\<lparr>topic := Some kw\<rparr>)])])])"
  by (simp add: assign_topics_def enumerate_simps getitem_def argmax_def setitem3_def
        lookup3_def dict_getitem_def modify3_def)

text \<open>
  C7: in a store with unique keys, when \<open>W\<close> has one row per caption (each row non-empty
  and no longer than the list of keyword strings), \<open>assign_topics\<close> raises nothing and
  the video of the \<open>i\<close>-th caption gets as topic the keyword string whose index is the
  \<open>argmax\<close> of row \<open>i\<close> of \<open>W\<close>, an index of a largest weight of the row; the rest of
  its record is unchanged. For a store with one video and one topic, \<open>run\<close> writes into
  the video's topic a space-joined list of terms of the vocabulary that the vectorizer
  returned for that video's caption.
\<close>

theorem assign_topics_argmax:
  "(wf_store d \<and> length W = length (snd (extract_captions d)) \<and>
    (\<forall>row \<in> set W. row \<noteq> [] \<and> length row \<le> length topic_keywords) \<longrightarrow>
      fst (assign_topics (snd (extract_captions d)) W topic_keywords d) = None \<and>
      (\<forall>i < length (snd (extract_captions d)).
         \<exists>j r. argmax (W ! i) = Inr j \<and> j < length (W ! i) \<and> (\<forall>x \<in> set (W ! i). x \<le> W ! i ! j) \<and>
               lookup3 d (snd (extract_captions d) ! i) = Inr r \<and>
               lookup3 (snd (assign_topics (snd (extract_captions d)) W topic_keywords d))
                 (snd (extract_captions d) ! i) = Inr (r\<lparr>topic := Some (topic_keywords ! j)\<rparr>))) \<and>
   (strip (get_captions r1) \<noteq> [] \<and> tfidf [strip (get_captions r1)] = Inr (X, terms) \<and>
    nmf 1 42 X = Inr ([[w]], [h]) \<and> length h = length terms \<longrightarrow>
      (\<exists>ks. set ks \<subseteq> set terms \<and>
            run tfidf nmf io dump 1 \<lparr>data = [(a, [(p, [(v, r1)])])], disk = f, printed = ms\<rparr> =
              (None, save_data io dump
                 \<lparr>data = [(a, [(p, [(v, r1\<lparr>topic := Some (join '' '' ks)\<rparr>)])])],
                  disk = f, printed = ms\<rparr>)))"
proof (intro conjI impI; (elim conjE)?)
  assume wf: "wf_store d" and len: "length W = length (snd (extract_captions d))"
    and rows: "\<forall>row \<in> set W. row \<noteq> [] \<and> length row \<le> length topic_keywords"
  let ?vm = "snd (extract_captions d)"
  let ?as = "map (\<lambda>(i, k). (k, topic_keywords ! projr (argmax (W ! i)))) (enumerate 0 ?vm)"
  have ok: "assign_topics ?vm W topic_keywords d =
          (None, map_store (last_assigned ?as (\<lambda>t r. r\<lparr>topic := Some t\<rparr>)) d)"
    using wf len rows by (intro assign_topics_ok) (simp_all add: extract_captions_keys)
  then show "fst (assign_topics ?vm W topic_keywords d) = None" by simp
  show "\<forall>i < length ?vm.
         \<exists>j r. argmax (W ! i) = Inr j \<and> j < length (W ! i) \<and> (\<forall>x \<in> set (W ! i). x \<le> W ! i ! j) \<and>
               lookup3 d (?vm ! i) = Inr r \<and>
               lookup3 (snd (assign_topics ?vm W topic_keywords d)) (?vm ! i) =
                 Inr (r\<lparr>topic := Some (topic_keywords ! j)\<rparr>)"
  proof (intro allI impI)
    fix i assume i: "i < length ?vm"
    with len rows have "W ! i \<noteq> []" by (metis nth_mem)
    from argmax_props[OF this] obtain j where
      j: "argmax (W ! i) = Inr j" "j < length (W ! i)" "\<forall>x \<in> set (W ! i). x \<le> W ! i ! j"
      by blast
    have "?vm ! i \<in> fst ` set (filter nonblank (all_videos d))"
      using i extract_captions_keys[of d] by (metis nth_mem)
    from video_id_map_present[OF wf this] obtain r where r: "lookup3 d (?vm ! i) = Inr r" ..
    have "(?vm ! i, topic_keywords ! projr (argmax (W ! i))) \<in> set ?as"
      using i by (force simp: in_set_enumerate_0)
    moreover have "distinct (map fst ?as)"
      unfolding enumerate_assignments_keys by (rule distinct_extract_captions[OF wf])
    ultimately have "map_of (rev ?as) (?vm ! i) = Some (topic_keywords ! j)"
      using j(1) by (simp add: map_of_rev_distinct)
    with r have "lookup3 (snd (assign_topics ?vm W topic_keywords d)) (?vm ! i) =
                 Inr (r\<lparr>topic := Some (topic_keywords ! j)\<rparr>)"
      by (simp add: ok lookup3_last_assigned)
    with j r show "\<exists>j r. argmax (W ! i) = Inr j \<and> j < length (W ! i) \<and>
               (\<forall>x \<in> set (W ! i). x \<le> W ! i ! j) \<and>
               lookup3 d (?vm ! i) = Inr r \<and>
               lookup3 (snd (assign_topics ?vm W topic_keywords d)) (?vm ! i) =
                 Inr (r\<lparr>topic := Some (topic_keywords ! j)\<rparr>)" by blast
  qed
next
  assume c: "strip (get_captions r1) \<noteq> []"
    and tf: "tfidf [strip (get_captions r1)] = Inr (X, terms)"
    and nm: "nmf 1 42 X = Inr ([[w]], [h])" and h: "length h = length terms"
  let ?idx = "slice_last 10 (argsort h)"
  let ?ks = "map ((!) terms) ?idx"
  have "set ?idx \<subseteq> {..<length terms}"
    using slice_last_props(3)[where n = 10 and ws = h] h by simp
  then have sub: "set ?ks \<subseteq> set terms" by auto
  have ex: "extract_captions [(a, [(p, [(v, r1)])])] = ([strip (get_captions r1)], [(a, p, v)])"
    using c by (simp add: extract_captions_def)
  have tm: "topic_modeling tfidf nmf 1 [strip (get_captions r1)] = Inr ([join '' '' ?ks], [[w]])"
    using tf nm by (simp add: topic_modeling_def topic_keyword_Inr[OF h])
  have "run tfidf nmf io dump 1 \<lparr>data = [(a, [(p, [(v, r1)])])], disk = f, printed = ms\<rparr> =
          (None, save_data io dump
             \<lparr>data = [(a, [(p, [(v, r1\<lparr>topic := Some (join '' '' ?ks)\<rparr>)])])],
              disk = f, printed = ms\<rparr>)"
    using tm by (simp add: run_def ex assign_topics_one_video)
  with sub show "\<exists>ks. set ks \<subseteq> set terms \<and>
            run tfidf nmf io dump 1 \<lparr>data = [(a, [(p, [(v, r1)])])], disk = f, printed = ms\<rparr> =
              (None, save_data io dump
                 \<lparr>data = [(a, [(p, [(v, r1\<lparr>topic := Some (join '' '' ks)\<rparr>)])])],
                  disk = f, printed = ms\<rparr>)" by blast
qed

theorem assign_topics_argmax_witness:
  "wf_store example_store \<and>
   fst (assign_topics (snd (extract_captions example_store)) [[2, 1], [1, 3 :: nat]]
          [''first topic'', ''second topic''] example_store) = None \<and>
   lookup3 (snd (assign_topics (snd (extract_captions example_store)) [[2, 1], [1, 3 :: nat]]
                   [''first topic'', ''second topic''] example_store))
     (''ChannelB'', ''PL3'', ''vid3'') =
     Inr \<lparr>captions = Some ''fish swim'', comments = None, topic = Some ''second topic''\<rparr> \<and>
   (\<exists>ks. set ks \<subseteq> set [''cats'', ''dogs'', ''great'', ''loyal'', ''pets''] \<and>
      run literal_tfidf literal_nmf None example_dump 1
        \<lparr>data = [(''ChannelA'', [(''PL1'', [(''vid1'', literal_record)])])],
         disk = ''on disk'', printed = []\<rparr> =
      (None, save_data None example_dump
         \<lparr>data = [(''ChannelA'', [(''PL1'', [(''vid1'', literal_record\<lparr>topic := Some (join '' '' ks)\<rparr>)])])],
          disk = ''on disk'', printed = []\<rparr>)) \<and>
   data (snd (run literal_tfidf literal_nmf None example_dump 1
        \<lparr>data = [(''ChannelA'', [(''PL1'', [(''vid1'', literal_record)])])],
         disk = ''on disk'', printed = []\<rparr>)) =
     [(''ChannelA'', [(''PL1'', [(''vid1'',
        literal_record\<lparr>topic := Some ''dogs loyal cats pets great''\<rparr>)])])]"
proof -
  have wf: "wf_store example_store" by code_simp
  have p1: "length [[2, 1], [1, 3 :: nat]] = length (snd (extract_captions example_store)) \<and>
    (\<forall>row \<in> set [[2, 1], [1, 3 :: nat]]. row \<noteq> [] \<and>
       length row \<le> length [''first topic'', ''second topic''])"
    by code_simp
  have l: "lookup3 (snd (assign_topics (snd (extract_captions example_store)) [[2, 1], [1, 3 :: nat]]
                   [''first topic'', ''second topic''] example_store))
     (''ChannelB'', ''PL3'', ''vid3'') =
     Inr \<lparr>captions = Some ''fish swim'', comments = None, topic = Some ''second topic''\<rparr>"
    by code_simp
  have p2: "strip (get_captions literal_record) \<noteq> [] \<and>
    literal_tfidf [strip (get_captions literal_record)] =
      Inr ((), [''cats'', ''dogs'', ''great'', ''loyal'', ''pets'']) \<and>
    literal_nmf 1 42 () = Inr ([[1]], [[3, 1, 5, 2, 4]]) \<and>
    length [3, 1, 5, 2, 4 :: nat] = length [''cats'', ''dogs'', ''great'', ''loyal'', ''pets'']"
    by code_simp
  have r: "data (snd (run literal_tfidf literal_nmf None example_dump 1
        \<lparr>data = [(''ChannelA'', [(''PL1'', [(''vid1'', literal_record)])])],
         disk = ''on disk'', printed = []\<rparr>)) =
     [(''ChannelA'', [(''PL1'', [(''vid1'',
        literal_record\<lparr>topic := Some ''dogs loyal cats pets great''\<rparr>)])])]"
    by code_simp
  from assign_topics_argmax[where d = example_store and W = "[[2, 1], [1, 3 :: nat]]"
         and topic_keywords = "[''first topic'', ''second topic'']"
         and ?r1.0 = literal_record and tfidf = literal_tfidf and X = "()"
         and terms = "[''cats'', ''dogs'', ''great'', ''loyal'', ''pets'']"
         and nmf = literal_nmf and w = 1 and h = "[3, 1, 5, 2, 4]"
         and io = None and dump = example_dump and a = "''ChannelA''" and p = "''PL1''"
         and v = "''vid1''" and f = "''on disk''" and ms = "[]"]
       wf p1 p2 l r
  show ?thesis by blast
qed

section \<open>TopicModelingBERT: the last sentence decides\<close>








section \<open>YouTubeCaptionUpdater: every video is tried, the file is written\<close>

lemma map_store_cong:
  assumes "\<And>k r. (k, r) \<in> set (all_videos d) \<Longrightarrow> g k r = h k r"
  shows "map_store g d = map_store h d"
  unfolding map_store_def
proof (rule map_ran_cong_set)
  fix a pls assume a: "(a, pls) \<in> set d"
  show "AList.map_ran (\<lambda>p. AList.map_ran (\<lambda>v. g (a, p, v))) pls =
        AList.map_ran (\<lambda>p. AList.map_ran (\<lambda>v. h (a, p, v))) pls"
  proof (rule map_ran_cong_set)
    fix p vs assume p: "(p, vs) \<in> set pls"
    show "AList.map_ran (\<lambda>v. g (a, p, v)) vs = AList.map_ran (\<lambda>v. h (a, p, v)) vs"
    proof (rule map_ran_cong_set)
      fix v r assume "(v, r) \<in> set vs"
      with a p have "((a, p, v), r) \<in> set (all_videos d)"
        unfolding in_all_videos by blast
      then show "g (a, p, v) r = h (a, p, v) r" by (rule assms)
    qed
  qed
qed

lemma update_captions_flat:
  "update_captions get_transcript st =
     fold (\<lambda>(k, r). caption_step get_transcript (fst k) (fst (snd k)) (snd (snd k)))
       (all_videos (data st)) st"
proof -
  define step :: "video_key \<Rightarrow> VideoRecord \<Rightarrow> state \<Rightarrow> state"
    where "step = (\<lambda>k r. caption_step get_transcript (fst k) (fst (snd k)) (snd (snd k)))"
  have "update_captions get_transcript st =
        fold (\<lambda>(a, pls). fold (\<lambda>(p, vs). fold (\<lambda>(v, r). step (a, p, v) r) vs) pls) (data st) st"
    by (simp add: update_captions_def fold_map comp_def split_def step_def)
  also have "\<dots> = fold (\<lambda>(k, r). step k r) (all_videos (data st)) st"
    by (rule fold_all_videos)
  finally show ?thesis by (simp add: step_def)
qed

lemma fold_caption_step:
  assumes "wf_store (data st)"
    and "\<forall>(k, r) \<in> set ks. \<exists>r'. lookup3 (data st) k = Inr r'"
  shows "fold (\<lambda>(k, r). caption_step get_transcript (fst k) (fst (snd k)) (snd (snd k))) ks st =
           st\<lparr>data := fold (\<lambda>(k, t). modify3 k (\<lambda>r. r\<lparr>captions := Some t\<rparr>))
                          (caption_assignments get_transcript ks) (data st),
               printed := printed st @ map (\<lambda>(k, r). caption_message get_transcript k) ks\<rparr>"
  using assms
proof (induction ks arbitrary: st)
  case Nil
  then show ?case by (simp add: caption_assignments_def)
next
  case (Cons x ks)
  obtain a p v r where x: "x = ((a, p, v), r)" by (cases x) auto
  from Cons.prems(2) obtain r' where r': "lookup3 (data st) (a, p, v) = Inr r'"
    by (auto simp: x)
  show ?case
  proof (cases "get_transcript v")
    case (Inl e)
    let ?st1 = "st\<lparr>printed := printed st @ [CaptionFailed v e]\<rparr>"
    have step: "caption_step get_transcript a p v st = ?st1"
      by (simp add: caption_step_def Inl)
    have "fold (\<lambda>(k, r). caption_step get_transcript (fst k) (fst (snd k)) (snd (snd k))) ks ?st1 =
          ?st1\<lparr>data := fold (\<lambda>(k, t). modify3 k (\<lambda>r. r\<lparr>captions := Some t\<rparr>))
                          (caption_assignments get_transcript ks) (data ?st1),
               printed := printed ?st1 @ map (\<lambda>(k, r). caption_message get_transcript k) ks\<rparr>"
      using Cons.prems by (intro Cons.IH) (simp_all add: x)
    then show ?thesis
      by (simp add: x step caption_assignments_def caption_message_def Inl)
  next
    case (Inr transcript)
    let ?s = "join [CHR 0x0A] (map seg_text transcript)"
    let ?d1 = "modify3 (a, p, v) (\<lambda>r. r\<lparr>captions := Some ?s\<rparr>) (data st)"
    let ?st1 = "st\<lparr>data := ?d1, printed := printed st @ [CaptionFetched v]\<rparr>"
    have step: "caption_step get_transcript a p v st = ?st1"
      by (simp add: caption_step_def Inr setitem3_ok[OF r'])
    have wf1: "wf_store (data ?st1)"
      using Cons.prems(1) by (simp add: wf_store_modify3)
    have look: "\<forall>(k, r) \<in> set ks. \<exists>r'. lookup3 (data ?st1) k = Inr r'"
      using Cons.prems(2) lookup3_modify3_ok[OF Cons.prems(1)]
      by (simp add: split_def) blast
    have "fold (\<lambda>(k, r). caption_step get_transcript (fst k) (fst (snd k)) (snd (snd k))) ks ?st1 =
          ?st1\<lparr>data := fold (\<lambda>(k, t). modify3 k (\<lambda>r. r\<lparr>captions := Some t\<rparr>))
                          (caption_assignments get_transcript ks) (data ?st1),
               printed := printed ?st1 @ map (\<lambda>(k, r). caption_message get_transcript k) ks\<rparr>"
      using wf1 look by (rule Cons.IH)
    then show ?thesis
      by (simp add: x step caption_assignments_def caption_message_def Inr)
  qed
qed

lemma last_caption_assignment:
  "last_assigned (caption_assignments get_transcript ks) (\<lambda>t r. r\<lparr>captions := Some t\<rparr>) k r =
     (if k \<in> fst ` set ks then fetched_captions get_transcript k r else r)"
proof -
  let ?F = "\<lambda>k. join [CHR 0x0A] (map seg_text (projr (get_transcript (snd (snd k)))))"
  let ?ok = "filter (\<lambda>k. \<not> isl (get_transcript (snd (snd k)))) (map fst ks)"
  have "rev (caption_assignments get_transcript ks) = map (\<lambda>k. (k, ?F k)) (rev ?ok)"
    by (simp add: caption_assignments_def rev_map)
  then have "map_of (rev (caption_assignments get_transcript ks)) k =
             (if k \<in> set ?ok then Some (?F k) else None)"
    by (simp add: map_of_map_restrict restrict_map_def)
  then show ?thesis
    by (cases "get_transcript (snd (snd k))")
       (auto simp: last_assigned_def fetched_captions_def)
qed

text \<open>
  C4: in a store with unique keys, after \<open>run\<close> of the caption updater every video whose
  fetch succeeded has the newline-joined segment texts as captions and every video
  whose fetch raised has its record as before; one line is printed per video, in store
  order, fetched or failed; and \<open>save_data\<close> is reached whatever failed: the file holds
  the serialized updated store (when writing the file itself works).
\<close>

theorem run_captions_result:
  assumes "wf_store (data st)"
  shows "data (run_captions get_transcript io dump st) =
           map_store (fetched_captions get_transcript) (data st) \<and>
         disk (run_captions get_transcript io dump st) =
           (case io of
              None \<Rightarrow> dump (map_store (fetched_captions get_transcript) (data st))
            | Some e \<Rightarrow> disk st) \<and>
         printed (run_captions get_transcript io dump st) =
           printed st @ map (\<lambda>(k, r). caption_message get_transcript k) (all_videos (data st)) @
           [case io of None \<Rightarrow> Saved | Some e \<Rightarrow> SaveFailed e]"
proof -
  have look: "\<forall>(k, r) \<in> set (all_videos (data st)). \<exists>r'. lookup3 (data st) k = Inr r'"
    using lookup3_all_videos[OF assms] by blast
  have d: "fold (\<lambda>(k, t). modify3 k (\<lambda>r. r\<lparr>captions := Some t\<rparr>))
             (caption_assignments get_transcript (all_videos (data st))) (data st) =
           map_store (fetched_captions get_transcript) (data st)"
  proof -
    have "fold (\<lambda>(k, t). modify3 k (\<lambda>r. r\<lparr>captions := Some t\<rparr>))
             (caption_assignments get_transcript (all_videos (data st))) (data st) =
          map_store (last_assigned (caption_assignments get_transcript (all_videos (data st)))
                       (\<lambda>t r. r\<lparr>captions := Some t\<rparr>)) (data st)"
      using assms by (rule fold_modify3) simp
    also have "\<dots> = map_store (fetched_captions get_transcript) (data st)"
      by (rule map_store_cong) (force simp: last_caption_assignment)
    finally show ?thesis .
  qed
  have "update_captions get_transcript st =
          st\<lparr>data := map_store (fetched_captions get_transcript) (data st),
             printed := printed st @
               map (\<lambda>(k, r). caption_message get_transcript k) (all_videos (data st))\<rparr>"
    unfolding update_captions_flat fold_caption_step[OF assms look] d ..
  then show ?thesis
    by (cases io) (simp_all add: run_captions_def save_data_def)
qed

theorem run_captions_result_witness:
  "wf_store (data example_state) \<and>
   data (run_captions example_get_transcript None example_dump example_state) =
     map_store (fetched_captions example_get_transcript) (data example_state) \<and>
   map (\<lambda>kr. captions (snd kr))
     (all_videos (data (run_captions example_get_transcript None example_dump example_state))) =
     [Some (''hello'' @ [CHR 0x0A] @ ''world''), Some ''  '', Some ''''] \<and>
   printed (run_captions example_get_transcript None example_dump example_state) =
     [CaptionFetched ''vid1'', CaptionFailed ''vid2'' (ExternalError ''TranscriptsDisabled''),
      CaptionFetched ''vid3'', Saved] \<and>
   disk (run_captions example_get_transcript None example_dump example_state) =
     example_dump (data (run_captions example_get_transcript None example_dump example_state))"
proof -
  have wf: "wf_store (data example_state)" by code_simp
  have c: "map (\<lambda>kr. captions (snd kr))
     (all_videos (data (run_captions example_get_transcript None example_dump example_state))) =
     [Some (''hello'' @ [CHR 0x0A] @ ''world''), Some ''  '', Some '''']" by code_simp
  have p: "printed (run_captions example_get_transcript None example_dump example_state) =
     [CaptionFetched ''vid1'', CaptionFailed ''vid2'' (ExternalError ''TranscriptsDisabled''),
      CaptionFetched ''vid3'', Saved]" by code_simp
  from run_captions_result[OF wf, of example_get_transcript None example_dump] wf c p
  show ?thesis by simp
qed

section \<open>YouTubeCommentExtractor: pagination\<close>

lemma get_comments_loop_chain:
  "is_page_chain execute v tok pages \<Longrightarrow>
   get_comments_loop execute v tok acc reqs =
     Some (Inr (acc @ concat (map (page_comments v) pages)), reqs @ page_requests v tok pages)"
proof (induction pages arbitrary: tok acc reqs)
  case Nil
  then show ?case by simp
next
  case (Cons page rest)
  from Cons.prems have ex: "execute (comment_request v tok) = Inr page" by simp
  show ?case
  proof (cases "nextPageToken page")
    case None
    with Cons.prems have "rest = []" by simp
    with ex None show ?thesis
      by (subst get_comments_loop.simps) simp
  next
    case (Some t)
    show ?thesis
    proof (cases "t = []")
      case True
      with Cons.prems Some have "rest = []" by simp
      with ex Some True show ?thesis
        by (subst get_comments_loop.simps) simp
    next
      case False
      with Cons.prems Some have "is_page_chain execute v (Some t) rest" by simp
      from Cons.IH[OF this] ex Some False show ?thesis
        by (subst get_comments_loop.simps) simp
    qed
  qed
qed

lemma get_comments_loop_fails:
  "fails_after execute v tok pages e \<Longrightarrow>
   get_comments_loop execute v tok acc reqs = Some (Inl e, reqs @ fail_requests v tok pages)"
proof (induction pages arbitrary: tok acc reqs)
  case Nil
  then show ?case by (subst get_comments_loop.simps) simp
next
  case (Cons page rest)
  from Cons.prems obtain t where ex: "execute (comment_request v tok) = Inr page"
    and t: "nextPageToken page = Some t" "t \<noteq> []" and rest: "fails_after execute v (Some t) rest e"
    by (auto split: option.splits)
  from Cons.IH[OF rest] ex t show ?case
    by (subst get_comments_loop.simps) simp
qed

lemma page_requests_size:
  "rq \<in> set (page_requests v tok pages) \<Longrightarrow> maxResults rq = 100 \<and> videoId rq = v"
  by (induction pages arbitrary: tok) (auto simp: comment_request_def)

lemma fail_requests_size:
  "rq \<in> set (fail_requests v tok pages) \<Longrightarrow> maxResults rq = 100 \<and> videoId rq = v"
  by (induction pages arbitrary: tok) (auto simp: comment_request_def)

lemma stored_of_fetched:
  "map (\<lambda>c. \<lparr>Timestamp = Timestamp c, Comment = Comment c\<rparr>) (concat (map (page_comments v) pages)) =
   stored_comments pages"
  by (simp add: stored_comments_def page_comments_def map_concat comp_def)

lemma for_each_append:
  "for_each body (xs @ ys) s =
     (case for_each body xs s of
        None \<Rightarrow> None
      | Some (Some e, s') \<Rightarrow> Some (Some e, s')
      | Some (None, s') \<Rightarrow> for_each body ys s')"
  by (induction xs arbitrary: s) (auto split: option.splits prod.splits)

lemma for_each_all_videos:
  "for_each (\<lambda>(a, pls). for_each (\<lambda>(p, vs). for_each (\<lambda>(v, r). step (a, p, v) r) vs) pls) d s =
   for_each (\<lambda>(k, r). step k r) (all_videos d) s"
proof (induction d arbitrary: s)
  case Nil
  then show ?case by simp
next
  case (Cons x d)
  obtain a pls where x: "x = (a, pls)" by (cases x)
  have inner: "for_each (\<lambda>(v, r). step (a, p, v) r) vs t =
               for_each (\<lambda>(k, r). step k r) (playlist_videos a p vs) t" for p vs t
    by (induction vs arbitrary: t) (auto split: option.splits prod.splits)
  have mid: "for_each (\<lambda>(p, vs). for_each (\<lambda>(v, r). step (a, p, v) r) vs) pls t =
             for_each (\<lambda>(k, r). step k r) (author_videos a pls) t" for t
    by (induction pls arbitrary: t)
       (auto simp: inner for_each_append split: option.splits prod.splits)
  show ?case
    by (simp add: x mid Cons.IH for_each_append split: option.splits prod.splits)
qed

lemma extract_comments_flat:
  "extract_comments execute st =
     for_each (\<lambda>(k, r). comment_step execute (fst k) (fst (snd k)) (snd (snd k)))
       (all_videos (data st)) st"
proof -
  define step :: "video_key \<Rightarrow> VideoRecord \<Rightarrow> cstate \<Rightarrow> (error option \<times> cstate) option"
    where "step = (\<lambda>k r. comment_step execute (fst k) (fst (snd k)) (snd (snd k)))"
  have "extract_comments execute st =
        for_each (\<lambda>(a, pls). for_each (\<lambda>(p, vs). for_each (\<lambda>(v, r). step (a, p, v) r) vs) pls)
          (data st) st"
    by (simp add: extract_comments_def step_def)
  also have "\<dots> = for_each (\<lambda>(k, r). step k r) (all_videos (data st)) st"
    by (rule for_each_all_videos)
  finally show ?thesis by (simp add: step_def)
qed

lemma comment_step_ok:
  assumes "is_page_chain execute v None pages"
  shows "comment_step execute a p v st =
           Some (None, st\<lparr>data := modify3 (a, p, v) (\<lambda>r. r\<lparr>comments := Some (stored_comments pages)\<rparr>) (data st),
                          printed := printed st @ [comment_message (a, p, v)],
                          sent := sent st @ page_requests v None pages\<rparr>)"
  using get_comments_loop_chain[OF assms, of "[]" "sent st"]
  by (simp add: comment_step_def get_comments_for_video_def comment_message_def stored_of_fetched)

lemma comment_step_fails:
  assumes "fails_after execute v None pages e"
  shows "comment_step execute a p v st =
           Some (Some e, st\<lparr>printed := printed st @ [comment_message (a, p, v)],
                            sent := sent st @ fail_requests v None pages\<rparr>)"
  using get_comments_loop_fails[OF assms, of "[]" "sent st"]
  by (simp add: comment_step_def get_comments_for_video_def comment_message_def)

lemma for_each_comment_steps:
  assumes "\<forall>(k, r) \<in> set ks. is_page_chain execute (snd (snd k)) None (pages (snd (snd k)))"
  shows "for_each (\<lambda>(k, r). comment_step execute (fst k) (fst (snd k)) (snd (snd k))) ks st =
           Some (None,
             st\<lparr>data := fold (\<lambda>(k, t). modify3 k (\<lambda>r. r\<lparr>comments := Some t\<rparr>))
                           (map (\<lambda>k. (k, stored_comments (pages (snd (snd k))))) (map fst ks))
                           (data st),
                printed := printed st @ map (\<lambda>(k, r). comment_message k) ks,
                sent := sent st @
                  concat (map (\<lambda>(k, r). page_requests (snd (snd k)) None (pages (snd (snd k)))) ks)\<rparr>)"
  using assms
proof (induction ks arbitrary: st)
  case Nil
  then show ?case by simp
next
  case (Cons x ks)
  obtain a p v r where x: "x = ((a, p, v), r)" by (cases x) auto
  from Cons.prems have c: "is_page_chain execute v None (pages v)"
    and rest: "\<forall>(k, r) \<in> set ks. is_page_chain execute (snd (snd k)) None (pages (snd (snd k)))"
    by (simp_all add: x)
  show ?case
    by (simp add: x comment_step_ok[OF c] Cons.IH[OF rest])
qed

lemma last_assigned_keyed:
  "last_assigned (map (\<lambda>k. (k, F k)) ks) upd = (\<lambda>k r. if k \<in> set ks then upd (F k) r else r)"
proof (intro ext)
  fix k r
  have "rev (map (\<lambda>k. (k, F k)) ks) = map (\<lambda>k. (k, F k)) (rev ks)" by (simp add: rev_map)
  then have "map_of (rev (map (\<lambda>k. (k, F k)) ks)) k = (if k \<in> set ks then Some (F k) else None)"
    by (simp add: map_of_map_restrict restrict_map_def)
  then show "last_assigned (map (\<lambda>k. (k, F k)) ks) upd k r =
             (if k \<in> set ks then upd (F k) r else r)"
    by (simp add: last_assigned_def)
qed

lemma fold_comment_assignments:
  assumes "wf_store d"
  shows "fold (\<lambda>(k, t). modify3 k (\<lambda>r. r\<lparr>comments := Some t\<rparr>))
           (map (\<lambda>k. (k, stored_comments (pages (snd (snd k))))) ks) d =
         map_store (\<lambda>k r. if k \<in> set ks
                            then r\<lparr>comments := Some (stored_comments (pages (snd (snd k))))\<rparr>
                            else r) d"
proof -
  have "fold (\<lambda>(k, t). modify3 k (\<lambda>r. r\<lparr>comments := Some t\<rparr>))
           (map (\<lambda>k. (k, stored_comments (pages (snd (snd k))))) ks) d =
        map_store (last_assigned (map (\<lambda>k. (k, stored_comments (pages (snd (snd k))))) ks)
                     (\<lambda>t r. r\<lparr>comments := Some t\<rparr>)) d"
    using assms by (rule fold_modify3) simp
  then show ?thesis by (simp only: last_assigned_keyed)
qed

text \<open>
  C5: in a store with unique keys, when for every video the service answers a finite
  chain of pages (each request carrying the token of the page before, the last page
  carrying no token), \<open>run\<close> of the comment extractor returns with no exception, every
  request it sent has page size 100, and the \<open>comments\<close> field of every video is
  replaced by one \<open>{Timestamp, Comment}\<close> entry per item of its pages, in page and item
  order. The store is then saved.
\<close>

theorem run_comments_collects_all_pages:
  assumes "wf_store (data st)"
    and "\<forall>(k, r) \<in> set (all_videos (data st)).
           is_page_chain execute (snd (snd k)) None (pages (snd (snd k)))"
  shows "run_comments execute io dump st =
           Some (None, save_data io dump
             (st\<lparr>data := map_store
                            (\<lambda>k r. r\<lparr>comments := Some (stored_comments (pages (snd (snd k))))\<rparr>)
                            (data st),
                 printed := printed st @ map (\<lambda>(k, r). comment_message k) (all_videos (data st)),
                 sent := sent st @
                   concat (map (\<lambda>(k, r). page_requests (snd (snd k)) None (pages (snd (snd k))))
                             (all_videos (data st)))\<rparr>)) \<and>
         (\<forall>(k, r) \<in> set (all_videos (data st)).
            \<forall>rq \<in> set (page_requests (snd (snd k)) None (pages (snd (snd k)))).
              maxResults rq = 100 \<and> videoId rq = snd (snd k))"
proof -
  let ?ks = "all_videos (data st)"
  have d: "fold (\<lambda>(k, t). modify3 k (\<lambda>r. r\<lparr>comments := Some t\<rparr>))
             (map (\<lambda>k. (k, stored_comments (pages (snd (snd k))))) (map fst ?ks)) (data st) =
           map_store (\<lambda>k r. r\<lparr>comments := Some (stored_comments (pages (snd (snd k))))\<rparr>) (data st)"
    unfolding fold_comment_assignments[OF assms(1)]
    by (rule map_store_cong) force
  have "extract_comments execute st =
          Some (None,
             st\<lparr>data := map_store
                            (\<lambda>k r. r\<lparr>comments := Some (stored_comments (pages (snd (snd k))))\<rparr>)
                            (data st),
                 printed := printed st @ map (\<lambda>(k, r). comment_message k) ?ks,
                 sent := sent st @
                   concat (map (\<lambda>(k, r). page_requests (snd (snd k)) None (pages (snd (snd k)))) ?ks)\<rparr>)"
    unfolding extract_comments_flat for_each_comment_steps[OF assms(2)] d ..
  then have "run_comments execute io dump st =
           Some (None, save_data io dump
             (st\<lparr>data := map_store
                            (\<lambda>k r. r\<lparr>comments := Some (stored_comments (pages (snd (snd k))))\<rparr>)
                            (data st),
                 printed := printed st @ map (\<lambda>(k, r). comment_message k) ?ks,
                 sent := sent st @
                   concat (map (\<lambda>(k, r). page_requests (snd (snd k)) None (pages (snd (snd k)))) ?ks)\<rparr>))"
    by (simp add: run_comments_def)
  moreover have "\<forall>(k, r) \<in> set ?ks.
            \<forall>rq \<in> set (page_requests (snd (snd k)) None (pages (snd (snd k)))).
              maxResults rq = 100 \<and> videoId rq = snd (snd k)"
    using page_requests_size by blast
  ultimately show ?thesis by (rule conjI)
qed

theorem run_comments_collects_all_pages_witness:
  "wf_store (data example_cstate) \<and>
   is_page_chain example_execute ''vid1'' None (example_pages ''vid1'') \<and>
   fst (the (run_comments example_execute None example_dump example_cstate)) = None \<and>
   map (\<lambda>kr. comments (snd kr))
     (all_videos (data (snd (the (run_comments example_execute None example_dump example_cstate))))) =
     [Some [\<lparr>Timestamp = ''2025-01-01'', Comment = ''first''\<rparr>,
            \<lparr>Timestamp = ''2025-01-02'', Comment = ''second''\<rparr>,
            \<lparr>Timestamp = ''2025-01-03'', Comment = ''third''\<rparr>],
      Some [], Some []] \<and>
   map pageToken (sent (snd (the (run_comments example_execute None example_dump example_cstate)))) =
     [None, Some ''T2'', None, None] \<and>
   map maxResults (sent (snd (the (run_comments example_execute None example_dump example_cstate)))) =
     [100, 100, 100, 100]"
proof -
  have wf: "wf_store (data example_cstate)" by code_simp
  have ch: "\<forall>(k, r) \<in> set (all_videos (data example_cstate)).
           is_page_chain example_execute (snd (snd k)) None (example_pages (snd (snd k)))"
    by code_simp
  have c1: "is_page_chain example_execute ''vid1'' None (example_pages ''vid1'')" by code_simp
  have v: "map (\<lambda>kr. comments (snd kr))
     (all_videos (data (snd (the (run_comments example_execute None example_dump example_cstate))))) =
     [Some [\<lparr>Timestamp = ''2025-01-01'', Comment = ''first''\<rparr>,
            \<lparr>Timestamp = ''2025-01-02'', Comment = ''second''\<rparr>,
            \<lparr>Timestamp = ''2025-01-03'', Comment = ''third''\<rparr>],
      Some [], Some []]" by code_simp
  have t: "map pageToken (sent (snd (the (run_comments example_execute None example_dump example_cstate)))) =
     [None, Some ''T2'', None, None]" by code_simp
  have m: "map maxResults (sent (snd (the (run_comments example_execute None example_dump example_cstate)))) =
     [100, 100, 100, 100]" by code_simp
  from run_comments_collects_all_pages[OF wf ch, of None example_dump]
  have "fst (the (run_comments example_execute None example_dump example_cstate)) = None"
    by simp
  with wf c1 v t m show ?thesis by blast
qed

section \<open>YouTubeCommentExtractor: an exception ends the run\<close>

text \<open>
  C6: in a store with unique keys, when the pagination of one video raises \<open>e\<close> (at
  its first request or after some pages) and the videos before it were fetched, \<open>run\<close>
  ends with \<open>e\<close>: nothing catches it. The videos before have their new comments in
  memory; the failing video and every video after it keep their records; no line is
  printed and no request is sent for a later video; \<open>save_data\<close> is not reached, so
  the file on disk is unchanged.
\<close>

theorem run_comments_exception_propagates:
  assumes "wf_store (data st)"
    and "all_videos (data st) = pre @ (k, r) # post"
    and "\<forall>(k', r') \<in> set pre.
           is_page_chain execute (snd (snd k')) None (pages (snd (snd k')))"
    and "fails_after execute (snd (snd k)) None failed_pages e"
  shows "\<exists>st'. run_comments execute io dump st = Some (Some e, st') \<and>
           disk st' = disk st \<and>
           printed st' = printed st @ map (\<lambda>(k, r). comment_message k) pre @ [comment_message k] \<and>
           sent st' = sent st @
             concat (map (\<lambda>(k, r). page_requests (snd (snd k)) None (pages (snd (snd k)))) pre) @
             fail_requests (snd (snd k)) None failed_pages \<and>
           data st' = map_store
             (\<lambda>k' r'. if k' \<in> fst ` set pre
                       then r'\<lparr>comments := Some (stored_comments (pages (snd (snd k'))))\<rparr>
                       else r') (data st) \<and>
           (\<forall>(k', r') \<in> set ((k, r) # post). lookup3 (data st') k' = Inr r')"
proof -
  let ?g = "\<lambda>k' r'. if k' \<in> fst ` set pre
                       then r'\<lparr>comments := Some (stored_comments (pages (snd (snd k'))))\<rparr>
                       else r'"
  let ?s1 = "st\<lparr>data := map_store ?g (data st),
                 printed := printed st @ map (\<lambda>(k, r). comment_message k) pre,
                 sent := sent st @
                   concat (map (\<lambda>(k, r). page_requests (snd (snd k)) None (pages (snd (snd k)))) pre)\<rparr>"
  let ?st' = "?s1\<lparr>printed := printed ?s1 @ [comment_message k],
                  sent := sent ?s1 @ fail_requests (snd (snd k)) None failed_pages\<rparr>"
  have d: "fold (\<lambda>(k, t). modify3 k (\<lambda>r. r\<lparr>comments := Some t\<rparr>))
             (map (\<lambda>k. (k, stored_comments (pages (snd (snd k))))) (map fst pre)) (data st) =
           map_store ?g (data st)"
    using fold_comment_assignments[OF assms(1), of pages "map fst pre"] by simp
  have pre: "for_each (\<lambda>(k, r). comment_step execute (fst k) (fst (snd k)) (snd (snd k))) pre st =
             Some (None, ?s1)"
    unfolding for_each_comment_steps[OF assms(3)] d ..
  obtain a p v where k: "k = (a, p, v)" by (cases k)
  have step: "comment_step execute (fst k) (fst (snd k)) (snd (snd k)) ?s1 = Some (Some e, ?st')"
    using comment_step_fails[OF assms(4), of "fst k" "fst (snd k)" ?s1] by (simp add: k)
  have "extract_comments execute st = Some (Some e, ?st')"
    unfolding extract_comments_flat assms(2) for_each_append pre
    by (simp add: step)
  then have run: "run_comments execute io dump st = Some (Some e, ?st')"
    by (simp add: run_comments_def)
  have keep: "\<forall>(k', r') \<in> set ((k, r) # post). lookup3 (data ?st') k' = Inr r'"
  proof (intro ballI, unfold split_paired_all prod.case)
    fix a' p' v' r' assume m: "((a', p', v'), r') \<in> set ((k, r) # post)"
    then have "((a', p', v'), r') \<in> set (all_videos (data st))" by (auto simp: assms(2))
    with assms(1) have l: "lookup3 (data st) (a', p', v') = Inr r'" by (rule lookup3_all_videos)
    have "distinct (map fst (pre @ (k, r) # post))"
      using distinct_all_videos_keys[OF assms(1)] by (simp add: assms(2))
    with m have "(a', p', v') \<notin> fst ` set pre" by force
    with l show "lookup3 (data ?st') (a', p', v') = Inr r'"
      by (simp add: lookup3_map_store)
  qed
  show ?thesis
    by (rule exI[of _ ?st']) (use run keep in simp)
qed

theorem run_comments_exception_propagates_witness:
  "wf_store (data example_cstate) \<and>
   fails_after example_execute_quota ''vid2'' None [] (ExternalError ''quotaExceeded'') \<and>
   (\<exists>st'. run_comments example_execute_quota None example_dump example_cstate =
            Some (Some (ExternalError ''quotaExceeded''), st') \<and> disk st' = ''on disk'') \<and>
   map (\<lambda>kr. comments (snd kr))
     (all_videos (data (snd (the (run_comments example_execute_quota None example_dump
                                   example_cstate))))) =
     [Some [\<lparr>Timestamp = ''2025-01-01'', Comment = ''first''\<rparr>,
            \<lparr>Timestamp = ''2025-01-02'', Comment = ''second''\<rparr>,
            \<lparr>Timestamp = ''2025-01-03'', Comment = ''third''\<rparr>],
      None, None] \<and>
   map videoId (sent (snd (the (run_comments example_execute_quota None example_dump
                                  example_cstate)))) = [''vid1'', ''vid1'', ''vid2'']"
proof -
  have wf: "wf_store (data example_cstate)" by code_simp
  have av: "all_videos (data example_cstate) =
      [((''ChannelA'', ''PL1'', ''vid1''),
        \<lparr>captions = Some ''cats purr. dogs bark.'',
         comments = Some [\<lparr>Timestamp = ''t0'', Comment = ''hi''\<rparr>], topic = None\<rparr>)] @
      ((''ChannelA'', ''PL1'', ''vid2''),
        \<lparr>captions = Some ''  '', comments = None, topic = Some ''old''\<rparr>) #
      [((''ChannelB'', ''PL3'', ''vid3''),
        \<lparr>captions = Some ''fish swim'', comments = None, topic = None\<rparr>)]"
    by code_simp
  have ch: "\<forall>(k', r') \<in> set [((''ChannelA'', ''PL1'', ''vid1''),
        \<lparr>captions = Some ''cats purr. dogs bark.'',
         comments = Some [\<lparr>Timestamp = ''t0'', Comment = ''hi''\<rparr>], topic = None\<rparr>)].
           is_page_chain example_execute_quota (snd (snd k')) None (example_pages (snd (snd k')))"
    by code_simp
  have fa: "fails_after example_execute_quota (snd (snd (''ChannelA'', ''PL1'', ''vid2''))) None []
              (ExternalError ''quotaExceeded'')" by code_simp
  have c: "map (\<lambda>kr. comments (snd kr))
     (all_videos (data (snd (the (run_comments example_execute_quota None example_dump
                                   example_cstate))))) =
     [Some [\<lparr>Timestamp = ''2025-01-01'', Comment = ''first''\<rparr>,
            \<lparr>Timestamp = ''2025-01-02'', Comment = ''second''\<rparr>,
            \<lparr>Timestamp = ''2025-01-03'', Comment = ''third''\<rparr>],
      None, None]" by code_simp
  have s: "map videoId (sent (snd (the (run_comments example_execute_quota None example_dump
                                  example_cstate)))) = [''vid1'', ''vid1'', ''vid2'']"
    by code_simp
  have dk: "disk example_cstate = ''on disk''" by code_simp
  from run_comments_exception_propagates[OF wf av ch fa, of None example_dump]
  have "\<exists>st'. run_comments example_execute_quota None example_dump example_cstate =
            Some (Some (ExternalError ''quotaExceeded''), st') \<and> disk st' = ''on disk''"
    unfolding dk by blast
  with wf fa c s show ?thesis by simp
qed

end
